theory Spec2Isabelle
  imports Main
begin

section \<open>Python strings and exceptions\<close>

text \<open>
  The generator is written in Python.  A Python \<open>str\<close> is modelled as a HOL \<open>string\<close>;
  one \<open>char\<close> stands for one code point in the range 0..255, and the library functions
  below are the Python ones restricted to that range.  Python integers are unbounded and
  modelled as \<open>int\<close>.  A raised exception is the \<open>Inl\<close> branch of a sum.
\<close>

datatype exn = SyntaxError | TypeError | ZeroDivisionError | IndexError | ValueError

text \<open>\<open>s.startswith(p)\<close>\<close>

fun startswith :: "string \<Rightarrow> string \<Rightarrow> bool" where
  "startswith s [] = True"
| "startswith [] (p # ps) = False"
| "startswith (c # cs) (p # ps) = (c = p \<and> startswith cs ps)"

text \<open>\<open>s.split(c)\<close> for a one-character separator: every occurrence splits, and the
  result always has at least one part.\<close>

fun py_split :: "char \<Rightarrow> string \<Rightarrow> string list" where
  "py_split c [] = [[]]"
| "py_split c (x # xs) =
     (let r = py_split c xs in if x = c then [] # r else (x # hd r) # tl r)"

text \<open>\<open>s.splitlines()\<close>: the line boundaries below 256 are LF, VT, FF, CR, FS, GS, RS and
  NEL, with CR LF counted once; no empty last line is produced.\<close>

definition is_linebreak :: "char \<Rightarrow> bool" where
  "is_linebreak c = (of_char c \<in> {10, 11, 12, 13, 28, 29, 30, 133 :: nat})"

fun splitlines :: "string \<Rightarrow> string list" where
  "splitlines [] = []"
| "splitlines (x # xs) =
     (if x = CHR 0x0D then
        (case xs of
           [] \<Rightarrow> [[]]
         | y # ys \<Rightarrow> if y = CHR 0x0A then [] # splitlines ys else [] # splitlines (y # ys))
      else if is_linebreak x then [] # splitlines xs
      else (case splitlines xs of [] \<Rightarrow> [[x]] | l # ls \<Rightarrow> (x # l) # ls))"

text \<open>\<open>sep.join(xs)\<close>\<close>

fun join :: "string \<Rightarrow> string list \<Rightarrow> string" where
  "join sep [] = []"
| "join sep [x] = x"
| "join sep (x # y # ys) = x @ sep @ join sep (y # ys)"

text \<open>The format specification \<open><w\<close> applied to a string: left-aligned in a field of
  \<open>w\<close> characters, filled with spaces on the right, never truncated.\<close>

definition ljust :: "string \<Rightarrow> nat \<Rightarrow> string" where
  "ljust s w = s @ replicate (w - length s) CHR '' ''"

section \<open>Column alignment: \<open>align_on_pipe\<close>\<close>

text \<open>The first loop of \<open>align_on_pipe\<close> carries \<open>n_splits\<close>, \<open>segs\<close> and \<open>cur_seg\<close>.\<close>

definition seg_step ::
  "nat \<times> string list list \<times> string list \<Rightarrow> string \<Rightarrow> nat \<times> string list list \<times> string list"
where
  "seg_step st line =
     (case st of (n_splits, segs, cur_seg) \<Rightarrow>
        let found = py_split CHR ''|'' line in
        if length found \<noteq> n_splits then
          (if cur_seg \<noteq> [] then (length found, segs @ [cur_seg], [line])
           else (length found, segs, cur_seg @ [line]))
        else (n_splits, segs, cur_seg @ [line]))"

definition segments :: "string list \<Rightarrow> string list list" where
  "segments lines =
     (case foldl seg_step (0, [], []) lines of
        (n_splits, segs, cur_seg) \<Rightarrow> if cur_seg \<noteq> [] then segs @ [cur_seg] else segs)"

text \<open>\<open>for i in range(len(parts)): if len(parts[i]) > max[i]: max[i] = len(parts[i])\<close>;
  reading \<open>max[i]\<close> past the end of \<open>max\<close> raises \<open>IndexError\<close>.\<close>

fun max_loop :: "string list \<Rightarrow> nat list \<Rightarrow> nat list \<Rightarrow> exn + nat list" where
  "max_loop parts [] mx = Inr mx"
| "max_loop parts (i # is) mx =
     (if i < length mx then
        max_loop parts is (if length (parts ! i) > mx ! i then mx[i := length (parts ! i)] else mx)
      else Inl IndexError)"

fun seg_max :: "string list \<Rightarrow> nat list \<Rightarrow> exn + nat list" where
  "seg_max [] mx = Inr mx"
| "seg_max (line # ls) mx =
     (let parts = py_split CHR ''|'' line in
      case max_loop parts [0..<length parts] mx of
        Inl e \<Rightarrow> Inl e
      | Inr mx' \<Rightarrow> seg_max ls mx')"

text \<open>\<open>for i in range(len(max)): new_line += f'{parts[i]:<{max[i]}}'\<close>;
  reading \<open>parts[i]\<close> past the end of \<open>parts\<close> raises \<open>IndexError\<close>.\<close>

fun fmt_loop :: "string list \<Rightarrow> nat list \<Rightarrow> nat list \<Rightarrow> string \<Rightarrow> exn + string" where
  "fmt_loop parts mx [] new_line = Inr new_line"
| "fmt_loop parts mx (i # is) new_line =
     (if i < length parts then fmt_loop parts mx is (new_line @ ljust (parts ! i) (mx ! i))
      else Inl IndexError)"

fun seg_out :: "string list \<Rightarrow> nat list \<Rightarrow> string list \<Rightarrow> exn + string list" where
  "seg_out [] mx out = Inr out"
| "seg_out (line # ls) mx out =
     (let parts = py_split CHR ''|'' line in
      case fmt_loop parts mx [0..<length mx] [] of
        Inl e \<Rightarrow> Inl e
      | Inr new_line \<Rightarrow> seg_out ls mx (out @ [new_line]))"

fun align_segs :: "string list list \<Rightarrow> string list \<Rightarrow> exn + string list" where
  "align_segs [] out = Inr out"
| "align_segs (seg # segs) out =
     (case seg of
        [] \<Rightarrow> Inl IndexError
      | first # _ \<Rightarrow>
          (case seg_max seg (replicate (length (py_split CHR ''|'' first)) 0) of
             Inl e \<Rightarrow> Inl e
           | Inr mx \<Rightarrow>
               (case seg_out seg mx out of
                  Inl e \<Rightarrow> Inl e
                | Inr out' \<Rightarrow> align_segs segs out')))"

definition align_on_pipe :: "string \<Rightarrow> exn + string" where
  "align_on_pipe doc =
     (case align_segs (segments (splitlines doc)) [] of
        Inl e \<Rightarrow> Inl e
      | Inr out \<Rightarrow> Inr (join [CHR 0x0A] out))"

text \<open>The words of the specification, for comparison: the pipe count of a line, the
  width of column \<open>i\<close> of a run, and a line of the run rendered with every column padded
  to that width.\<close>

definition pipe_count :: "string \<Rightarrow> nat" where
  "pipe_count line = length (filter (\<lambda>c. c = CHR ''|'') line)"

definition run_width :: "string list \<Rightarrow> nat \<Rightarrow> nat" where
  "run_width run i = Max ((\<lambda>line. length (py_split CHR ''|'' line ! i)) ` set run)"

definition padded_line :: "string list \<Rightarrow> string \<Rightarrow> string" where
  "padded_line run line =
     concat (map (\<lambda>i. ljust (py_split CHR ''|'' line ! i) (run_width run i))
                 [0..<Suc (pipe_count line)])"

text \<open>The invariant of the first loop of \<open>align_on_pipe\<close>, over the lines read so far.\<close>

definition seg_inv :: "nat \<times> string list list \<times> string list \<Rightarrow> string list \<Rightarrow> bool" where
  "seg_inv st lines =
     (case st of (n, segs, cur) \<Rightarrow>
        concat segs @ cur = lines \<and>
        (\<forall>s\<in>set segs. s \<noteq> [] \<and> (\<forall>l\<in>set s. pipe_count l = pipe_count (hd s))) \<and>
        (\<forall>l\<in>set cur. Suc (pipe_count l) = n) \<and>
        (cur = [] \<longrightarrow> segs = []) \<and>
        distinct_adj (map (\<lambda>s. pipe_count (hd s)) segs) \<and>
        (segs \<noteq> [] \<longrightarrow> Suc (pipe_count (hd (last segs))) \<noteq> n))"

text \<open>The words of claim C9: an output line is the columns of the input line, in their
  order, each followed by some spaces and by nothing else.\<close>

definition spaced_columns :: "string \<Rightarrow> string \<Rightarrow> bool" where
  "spaced_columns line out =
     (\<exists>ws. length ws = length (py_split CHR ''|'' line) \<and>
           out = concat (map (\<lambda>(col, w). col @ replicate w CHR '' '')
                             (zip (py_split CHR ''|'' line) ws)))"

section \<open>More of the Python library\<close>

text \<open>\<open>sub in s\<close> for two strings: \<open>sub\<close> occurs in \<open>s\<close> as a contiguous piece.\<close>

fun contains :: "string \<Rightarrow> string \<Rightarrow> bool" where
  "contains [] sub = (sub = [])"
| "contains (c # cs) sub = (startswith (c # cs) sub \<or> contains cs sub)"

text \<open>\<open>s.replace(old, new)\<close>: the occurrences of \<open>old\<close> are replaced from the left and do
  not overlap; an empty \<open>old\<close> matches before every character and at the end.\<close>

fun replace :: "string \<Rightarrow> string \<Rightarrow> string \<Rightarrow> string" where
  "replace [] old new = (if old = [] then new else [])"
| "replace (c # cs) old new =
     (if startswith (c # cs) old then
        new @ (if old = [] then c # replace cs old new
               else replace (drop (length old - 1) cs) old new)
      else c # replace cs old new)"

text \<open>\<open>str(n)\<close> for an integer: the decimal digits, with a minus sign when negative.\<close>

definition digit_char :: "nat \<Rightarrow> char" where
  "digit_char d = char_of (48 + d)"

fun digits :: "nat \<Rightarrow> string" where
  "digits n = (if n < 10 then [digit_char n] else digits (n div 10) @ [digit_char (n mod 10)])"

declare digits.simps [simp del]

definition py_str :: "int \<Rightarrow> string" where
  "py_str n = (if n < 0 then CHR ''-'' # digits (nat (- n)) else digits (nat n))"

text \<open>\<open>int(s)\<close> for a string: white space around is dropped, then an optional sign and
  decimal digits, where single underscores may stand between digits.  \<open>None\<close> is
  \<open>ValueError\<close>.  The white space below 256 that \<open>int\<close> drops is TAB, LF, VT, FF, CR,
  space, NEL and NBSP.\<close>

definition is_digit :: "char \<Rightarrow> bool" where
  "is_digit c = (48 \<le> (of_char c :: nat) \<and> (of_char c :: nat) \<le> 57)"

definition digit_val :: "char \<Rightarrow> nat" where
  "digit_val c = of_char c - 48"

definition is_int_space :: "char \<Rightarrow> bool" where
  "is_int_space c = (of_char c \<in> {9, 10, 11, 12, 13, 32, 133, 160 :: nat})"

text \<open>The digits of a literal read from the left; \<open>prev\<close> says whether the character
  before was a digit, which is what an underscore needs on its left.\<close>

fun int_digits :: "string \<Rightarrow> bool \<Rightarrow> nat \<Rightarrow> nat option" where
  "int_digits [] prev acc = (if prev then Some acc else None)"
| "int_digits (c # cs) prev acc =
     (if is_digit c then int_digits cs True (10 * acc + digit_val c)
      else if c = CHR ''_'' \<and> prev then
        (case cs of [] \<Rightarrow> None
         | d # ds \<Rightarrow> if is_digit d then int_digits cs False acc else None)
      else None)"

definition py_int :: "string \<Rightarrow> int option" where
  "py_int s =
     (let t = rev (dropWhile is_int_space (rev (dropWhile is_int_space s))) in
      case t of
        [] \<Rightarrow> None
      | c # cs \<Rightarrow>
          if c = CHR ''-'' then map_option (\<lambda>n. - int n) (int_digits cs False 0)
          else if c = CHR ''+'' then map_option int (int_digits cs False 0)
          else map_option int (int_digits (c # cs) False 0))"

text \<open>\<open>s.lower()\<close> below 256: the capital letters A to Z and the accented capitals of
  Latin-1 move up by 32.\<close>

definition lower_char :: "char \<Rightarrow> char" where
  "lower_char c =
     (let n = (of_char c :: nat) in
      if (65 \<le> n \<and> n \<le> 90) \<or> (192 \<le> n \<and> n \<le> 214) \<or> (216 \<le> n \<and> n \<le> 222)
      then char_of (n + 32) else c)"

definition lower :: "string \<Rightarrow> string" where
  "lower s = map lower_char s"

section \<open>The arithmetic that \<open>eval\<close> accepts\<close>

text \<open>
  \<open>parse_portsize_part\<close> hands a string to Python's \<open>eval\<close> only when every character
  of it is a decimal digit or one of \<open>+ - * / ( )\<close>.  On such strings \<open>eval\<close> is the
  expression grammar of Python over integer literals, the signs, the operators
  \<open>+ - * / // **\<close>, brackets, the empty tuple \<open>()\<close> and calls; this section follows
  that grammar.  A result is a value, a raised exception, or \<open>FloatResult\<close>: true
  division by a non-zero number and a negative exponent leave the integers for binary
  floating point, which is not modelled, and nothing is said here about what Python
  returns or raises from there on.  The limits of one interpreter (the nesting depth of
  brackets, the recursion depth, the number of digits converted between \<open>int\<close> and
  \<open>str\<close>, memory) are not modelled either.
\<close>

datatype 'a res = Value 'a | Raised exn | FloatResult

datatype tok = NUM string | PLUS | MINUS | STAR | SLASH | DSLASH | DSTAR | LP | RP

text \<open>The tokens of a string: a number is a longest run of digits, and \<open>**\<close> and \<open>//\<close> are
  read before \<open>*\<close> and \<open>/\<close>.  A character outside the sixteen is an error, a case that
  the caller excludes.\<close>

fun lex :: "string \<Rightarrow> tok list option" where
  "lex [] = Some []"
| "lex (c # cs) =
     (if is_digit c then
        (case lex cs of
           None \<Rightarrow> None
         | Some ts \<Rightarrow>
             (case cs of
                [] \<Rightarrow> Some (NUM [c] # ts)
              | d # _ \<Rightarrow>
                  if is_digit d then
                    (case ts of NUM ds # ts' \<Rightarrow> Some (NUM (c # ds) # ts') | _ \<Rightarrow> None)
                  else Some (NUM [c] # ts)))
      else if c = CHR ''+'' then map_option (Cons PLUS) (lex cs)
      else if c = CHR ''-'' then map_option (Cons MINUS) (lex cs)
      else if c = CHR ''('' then map_option (Cons LP) (lex cs)
      else if c = CHR '')'' then map_option (Cons RP) (lex cs)
      else if c = CHR ''*'' then
        (case cs of
           [] \<Rightarrow> Some [STAR]
         | d # ds \<Rightarrow> if d = CHR ''*'' then map_option (Cons DSTAR) (lex ds)
                    else map_option (Cons STAR) (lex (d # ds)))
      else if c = CHR ''/'' then
        (case cs of
           [] \<Rightarrow> Some [SLASH]
         | d # ds \<Rightarrow> if d = CHR ''/'' then map_option (Cons DSLASH) (lex ds)
                    else map_option (Cons SLASH) (lex (d # ds)))
      else None)"

text \<open>A decimal literal is a non-zero digit followed by digits, or zeros only.\<close>

definition literal_ok :: "string \<Rightarrow> bool" where
  "literal_ok ds = (case ds of [] \<Rightarrow> False | d # _ \<Rightarrow> d \<noteq> CHR ''0'' \<or> list_all (\<lambda>c. c = CHR ''0'') ds)"

definition literal_val :: "string \<Rightarrow> nat" where
  "literal_val ds = foldl (\<lambda>acc c. 10 * acc + digit_val c) 0 ds"

datatype binop = Add | Sub | Mul | TrueDiv | FloorDiv | Pow

datatype argkind = Plain | Star | DStar

datatype expr =
    Num nat
  | Tuple0
  | UPos expr
  | UNeg expr
  | Bin binop expr expr
  | Call0 expr
  | Call1 argkind expr expr

text \<open>
  The grammar, one function per rule:
  \<^verbatim>\<open>sum:     term (('+' | '-') term)*\<close>,
  \<^verbatim>\<open>term:    factor (('*' | '/' | '//') factor)*\<close>,
  \<^verbatim>\<open>factor:  ('+' | '-') factor | power\<close>,
  \<^verbatim>\<open>power:   primary ['**' factor]\<close>,
  \<^verbatim>\<open>primary: atom ('(' [['*' | '**'] sum] ')')*\<close>,
  \<^verbatim>\<open>atom:    NUMBER | '(' ')' | '(' sum ')'\<close>.
  Each function returns the expression read and the tokens left, \<open>None\<close> for a syntax
  error.  The tests on \<open>length\<close> only serve the termination proof: a rule never returns
  more tokens than it was given (\<open>parse_shorter\<close> below).
\<close>

function
  parse_sum :: "tok list \<Rightarrow> (expr \<times> tok list) option" and
  sum_loop :: "expr \<Rightarrow> tok list \<Rightarrow> (expr \<times> tok list) option" and
  parse_term :: "tok list \<Rightarrow> (expr \<times> tok list) option" and
  term_loop :: "expr \<Rightarrow> tok list \<Rightarrow> (expr \<times> tok list) option" and
  parse_factor :: "tok list \<Rightarrow> (expr \<times> tok list) option" and
  parse_power :: "tok list \<Rightarrow> (expr \<times> tok list) option" and
  parse_primary :: "tok list \<Rightarrow> (expr \<times> tok list) option" and
  trailer_loop :: "expr \<Rightarrow> tok list \<Rightarrow> (expr \<times> tok list) option" and
  parse_arg :: "argkind \<Rightarrow> expr \<Rightarrow> tok list \<Rightarrow> (expr \<times> tok list) option" and
  parse_atom :: "tok list \<Rightarrow> (expr \<times> tok list) option"
where
  "parse_sum ts =
     (case parse_term ts of
        None \<Rightarrow> None
      | Some (t, r) \<Rightarrow> if length r \<le> length ts then sum_loop t r else None)"
| "sum_loop acc ts =
     (case ts of
        PLUS # r \<Rightarrow>
          (case parse_term r of
             None \<Rightarrow> None
           | Some (t, r') \<Rightarrow> if length r' \<le> length r then sum_loop (Bin Add acc t) r' else None)
      | MINUS # r \<Rightarrow>
          (case parse_term r of
             None \<Rightarrow> None
           | Some (t, r') \<Rightarrow> if length r' \<le> length r then sum_loop (Bin Sub acc t) r' else None)
      | _ \<Rightarrow> Some (acc, ts))"
| "parse_term ts =
     (case parse_factor ts of
        None \<Rightarrow> None
      | Some (f, r) \<Rightarrow> if length r \<le> length ts then term_loop f r else None)"
| "term_loop acc ts =
     (case ts of
        STAR # r \<Rightarrow>
          (case parse_factor r of
             None \<Rightarrow> None
           | Some (f, r') \<Rightarrow> if length r' \<le> length r then term_loop (Bin Mul acc f) r' else None)
      | SLASH # r \<Rightarrow>
          (case parse_factor r of
             None \<Rightarrow> None
           | Some (f, r') \<Rightarrow>
               if length r' \<le> length r then term_loop (Bin TrueDiv acc f) r' else None)
      | DSLASH # r \<Rightarrow>
          (case parse_factor r of
             None \<Rightarrow> None
           | Some (f, r') \<Rightarrow>
               if length r' \<le> length r then term_loop (Bin FloorDiv acc f) r' else None)
      | _ \<Rightarrow> Some (acc, ts))"
| "parse_factor ts =
     (case ts of
        PLUS # r \<Rightarrow>
          (case parse_factor r of None \<Rightarrow> None | Some (f, r') \<Rightarrow> Some (UPos f, r'))
      | MINUS # r \<Rightarrow>
          (case parse_factor r of None \<Rightarrow> None | Some (f, r') \<Rightarrow> Some (UNeg f, r'))
      | _ \<Rightarrow> parse_power ts)"
| "parse_power ts =
     (case parse_primary ts of
        None \<Rightarrow> None
      | Some (p, r) \<Rightarrow>
          (case r of
             DSTAR # r' \<Rightarrow>
               if length r' < length ts then
                 (case parse_factor r' of
                    None \<Rightarrow> None
                  | Some (f, r'') \<Rightarrow> Some (Bin Pow p f, r''))
               else None
           | _ \<Rightarrow> Some (p, r)))"
| "parse_primary ts =
     (case parse_atom ts of
        None \<Rightarrow> None
      | Some (a, r) \<Rightarrow> if length r \<le> length ts then trailer_loop a r else None)"
| "trailer_loop acc ts =
     (case ts of
        LP # r \<Rightarrow>
          (case r of
             RP # r' \<Rightarrow> trailer_loop (Call0 acc) r'
           | STAR # r' \<Rightarrow> parse_arg Star acc r'
           | DSTAR # r' \<Rightarrow> parse_arg DStar acc r'
           | _ \<Rightarrow> parse_arg Plain acc r)
      | _ \<Rightarrow> Some (acc, ts))"
| "parse_arg k acc ts =
     (case parse_sum ts of
        None \<Rightarrow> None
      | Some (a, r) \<Rightarrow>
          (case r of
             RP # r' \<Rightarrow> if length r' < length ts then trailer_loop (Call1 k acc a) r' else None
           | _ \<Rightarrow> None))"
| "parse_atom ts =
     (case ts of
        NUM ds # r \<Rightarrow> if literal_ok ds then Some (Num (literal_val ds), r) else None
      | LP # r \<Rightarrow>
          (case r of
             RP # r' \<Rightarrow> Some (Tuple0, r')
           | _ \<Rightarrow>
               (case parse_sum r of
                  None \<Rightarrow> None
                | Some (e, r') \<Rightarrow> (case r' of RP # r'' \<Rightarrow> Some (e, r'') | _ \<Rightarrow> None)))
      | _ \<Rightarrow> None)"
  by pat_completeness auto
termination
  by (relation "measure (\<lambda>x. case x of
         Inl (Inl (Inl ts)) \<Rightarrow> 16 * length ts + 10
       | Inl (Inl (Inr (acc, ts))) \<Rightarrow> 16 * length ts
       | Inl (Inr (Inl ts)) \<Rightarrow> 16 * length ts + 8
       | Inl (Inr (Inr (Inl (acc, ts)))) \<Rightarrow> 16 * length ts
       | Inl (Inr (Inr (Inr ts))) \<Rightarrow> 16 * length ts + 6
       | Inr (Inl (Inl ts)) \<Rightarrow> 16 * length ts + 5
       | Inr (Inl (Inr ts)) \<Rightarrow> 16 * length ts + 4
       | Inr (Inr (Inl (acc, ts))) \<Rightarrow> 16 * length ts
       | Inr (Inr (Inr (Inl (k, acc, ts)))) \<Rightarrow> 16 * length ts + 11
       | Inr (Inr (Inr (Inr ts))) \<Rightarrow> 16 * length ts + 2)")
     auto

text \<open>A whole string is one \<open>sum\<close> with no token left over.\<close>

definition parse_expr :: "string \<Rightarrow> expr option" where
  "parse_expr s =
     (case lex s of
        None \<Rightarrow> None
      | Some ts \<Rightarrow> (case parse_sum ts of Some (e, []) \<Rightarrow> Some e | _ \<Rightarrow> None))"

text \<open>The objects an expression can evaluate to without floating point: an integer or
  the empty tuple.\<close>

datatype pyobj = VInt int | VTuple

text \<open>The operators.  Two empty tuples add up to the empty tuple, and an empty tuple times
  an integer is the empty tuple; floor division rounds down, as \<open>div\<close> on \<open>int\<close> does.\<close>

fun apply_binop :: "binop \<Rightarrow> pyobj \<Rightarrow> pyobj \<Rightarrow> pyobj res" where
  "apply_binop Add (VInt a) (VInt b) = Value (VInt (a + b))"
| "apply_binop Add VTuple VTuple = Value VTuple"
| "apply_binop Sub (VInt a) (VInt b) = Value (VInt (a - b))"
| "apply_binop Mul (VInt a) (VInt b) = Value (VInt (a * b))"
| "apply_binop Mul VTuple (VInt b) = Value VTuple"
| "apply_binop Mul (VInt a) VTuple = Value VTuple"
| "apply_binop TrueDiv (VInt a) (VInt b) =
     (if b = 0 then Raised ZeroDivisionError else FloatResult)"
| "apply_binop FloorDiv (VInt a) (VInt b) =
     (if b = 0 then Raised ZeroDivisionError else Value (VInt (a div b)))"
| "apply_binop Pow (VInt a) (VInt b) =
     (if 0 \<le> b then Value (VInt (a ^ nat b))
      else if a = 0 then Raised ZeroDivisionError
      else FloatResult)"
| "apply_binop _ _ _ = Raised TypeError"

text \<open>Evaluation goes from left to right and stops at the first exception.  No object
  here can be called, so a call raises \<open>TypeError\<close> once the callee and the argument
  are evaluated.\<close>

fun eval_expr :: "expr \<Rightarrow> pyobj res" where
  "eval_expr (Num n) = Value (VInt (int n))"
| "eval_expr Tuple0 = Value VTuple"
| "eval_expr (UPos e) =
     (case eval_expr e of
        Value (VInt a) \<Rightarrow> Value (VInt a)
      | Value VTuple \<Rightarrow> Raised TypeError
      | r \<Rightarrow> r)"
| "eval_expr (UNeg e) =
     (case eval_expr e of
        Value (VInt a) \<Rightarrow> Value (VInt (- a))
      | Value VTuple \<Rightarrow> Raised TypeError
      | r \<Rightarrow> r)"
| "eval_expr (Bin opr l r) =
     (case eval_expr l of
        Value a \<Rightarrow> (case eval_expr r of Value b \<Rightarrow> apply_binop opr a b | x \<Rightarrow> x)
      | x \<Rightarrow> x)"
| "eval_expr (Call0 f) =
     (case eval_expr f of Value a \<Rightarrow> Raised TypeError | x \<Rightarrow> x)"
| "eval_expr (Call1 k f a) =
     (case eval_expr f of
        Value x \<Rightarrow> (case eval_expr a of Value y \<Rightarrow> Raised TypeError | z \<Rightarrow> z)
      | z \<Rightarrow> z)"

text \<open>\<open>eval(s)\<close>: a string that is not an expression raises \<open>SyntaxError\<close> before
  anything is evaluated.\<close>

definition py_eval :: "string \<Rightarrow> pyobj res" where
  "py_eval s = (case parse_expr s of None \<Rightarrow> Raised SyntaxError | Some e \<Rightarrow> eval_expr e)"

text \<open>\<open>int(eval(s))\<close>: \<open>int\<close> of an integer is the integer, \<open>int\<close> of a tuple raises
  \<open>TypeError\<close>.\<close>

definition int_eval :: "string \<Rightarrow> int res" where
  "int_eval s =
     (case py_eval s of
        Value (VInt n) \<Rightarrow> Value n
      | Value VTuple \<Rightarrow> Raised TypeError
      | Raised e \<Rightarrow> Raised e
      | FloatResult \<Rightarrow> FloatResult)"

section \<open>Generics, ports and the width of a port\<close>

text \<open>The dataclass \<open>Generic\<close>.  The fields \<open>default\<close>, \<open>value\<close> and \<open>length\<close> carry a
  prime here, and every field a prefix, since a \<open>Port\<close> has fields of the same names.\<close>

record Generic =
  g_name :: string
  g_namepadding :: string
  g_typestr :: string
  g_default' :: string
  g_defaultstr :: string
  g_commentstr :: string
  g_value' :: string
  g_semicolon :: string
  g_comma :: string
  g_vhdl_type :: string
  g_high :: string
  g_low :: string
  g_length' :: string

text \<open>\<open>Generic()\<close> with the defaults of the dataclass.\<close>

definition Generic0 :: Generic where
  "Generic0 =
     \<lparr> g_name = '''', g_namepadding = '''', g_typestr = '''', g_default' = '''',
       g_defaultstr = '''', g_commentstr = '''', g_value' = '''', g_semicolon = '';'',
       g_comma = '','', g_vhdl_type = '''', g_high = ''0'', g_low = ''0'', g_length' = ''1'' \<rparr>"

text \<open>A width bound is a string or, where the source writes \<open>low_str = 0\<close>, an integer;
  \<open>parse_portsize_part\<close> returns either.\<close>

datatype pyval = PyInt int | PyStr string

text \<open>\<open>str(x)\<close> and \<open>f"{x}"\<close> for such a value.\<close>

fun str_of :: "pyval \<Rightarrow> string" where
  "str_of (PyInt n) = py_str n"
| "str_of (PyStr s) = s"

text \<open>\<open>re.search(r'[^+\-*/()0-9]', s)\<close> finds a character that is neither a digit nor one
  of \<open>+ - * / ( )\<close>.\<close>

definition arith_char :: "char \<Rightarrow> bool" where
  "arith_char c = (is_digit c \<or> c \<in> set ''+-*/()'')"

definition has_nonarith :: "string \<Rightarrow> bool" where
  "has_nonarith s = list_ex (\<lambda>c. \<not> arith_char c) s"

text \<open>The loop of \<open>parse_portsize_part\<close> over the generics, on a string.  \<open>Inl s\<close> is the
  \<open>return size_part\<close> of the \<open>except ValueError\<close> branch, \<open>Inr s\<close> the string when the
  loop ends.\<close>

fun subst_loop :: "string \<Rightarrow> Generic list \<Rightarrow> string + string" where
  "subst_loop size_part [] = Inr size_part"
| "subst_loop size_part (generic # rest) =
     (if g_typestr generic \<noteq> ''integer'' then subst_loop size_part rest
      else if contains size_part (g_name generic) then
        (case py_int (g_value' generic) of
           None \<Rightarrow> Inl size_part
         | Some gen_value \<Rightarrow>
             subst_loop (replace size_part (g_name generic) (py_str gen_value)) rest)
      else subst_loop size_part rest)"

text \<open>\<open>parse_portsize_part\<close>.  On an integer \<open>size_part\<close> the first use of it, either
  \<open>generic.name in size_part\<close> or \<open>re.search\<close>, raises \<open>TypeError\<close>.\<close>

fun parse_portsize_part :: "pyval \<Rightarrow> Generic list \<Rightarrow> pyval res" where
  "parse_portsize_part (PyInt n) generic_list = Raised TypeError"
| "parse_portsize_part (PyStr size_part) generic_list =
     (case subst_loop size_part generic_list of
        Inl s \<Rightarrow> Value (PyStr s)
      | Inr s \<Rightarrow>
          if has_nonarith s then Value (PyStr s)
          else (case int_eval s of
                  Value n \<Rightarrow> Value (PyInt n)
                | Raised e \<Rightarrow> Raised e
                | FloatResult \<Rightarrow> FloatResult))"

text \<open>The dataclass \<open>Port\<close>.\<close>

record Port =
  name :: string
  namepadding :: string
  dirstr :: string
  typestr :: string
  semicolon :: string
  comma :: string
  commentstr :: string
  num :: string
  vhdl_type :: string
  high :: string
  low :: string
  length' :: string
  target :: string

definition Port0 :: Port where
  "Port0 =
     \<lparr> name = '''', namepadding = '''', dirstr = '''', typestr = '''', semicolon = '';'',
       comma = '','', commentstr = '''', num = '''', vhdl_type = '''', high = ''0'',
       low = ''0'', length' = ''1'', target = '''' \<rparr>"

text \<open>
  \<open>re.search(r'^(.*?)\((.+)\)$', name)\<close>.  The dot matches every character but the line
  feed and \<open>$\<close> matches at the end or before a last line feed.  So the name, without one
  last line feed, has no line feed and ends with \<open>)\<close>; the first group is lazy and ends
  before the first \<open>(\<close>, and the second group is all that stands between that bracket
  and the last character, which must not be empty.
\<close>

definition re_name_hint :: "string \<Rightarrow> (string \<times> string) option" where
  "re_name_hint nm =
     (let s = (if nm \<noteq> [] \<and> last nm = CHR 0x0A then butlast nm else nm) in
      if s = [] \<or> CHR 0x0A \<in> set s \<or> last s \<noteq> CHR '')'' then None
      else
        let i = length (takeWhile (\<lambda>c. c \<noteq> CHR ''('') s) in
        if i + 2 < length s then Some (take i s, take (length s - i - 2) (drop (i + 1) s))
        else None)"

text \<open>The type prefix of a hint: the \<open>if\<close>/\<open>elif\<close> chain on \<open>typestr\<close>, giving the
  \<open>vhdl_type\<close> and what is left of \<open>typestr\<close>.  In the branch of the space, \<open>split\<close>
  gives at least two parts.\<close>

definition hint_type :: "string \<Rightarrow> string \<times> string" where
  "hint_type ts =
     (if startswith ts ''uf'' then (''ufixed'', drop 2 ts)
      else if startswith ts ''u'' then (''unsigned'', drop 1 ts)
      else if startswith ts ''sf'' then (''sfixed'', drop 2 ts)
      else if startswith ts ''s'' then (''signed'', drop 1 ts)
      else if CHR '' '' \<in> set ts then
        (let typestr_parts = py_split CHR '' '' ts in (typestr_parts ! 0, typestr_parts ! 1))
      else (''std_logic_vector'', ts))"

text \<open>The two bounds: \<open>typestr.split(':')\<close>, and the integer 0 for \<open>low_str\<close> when there is
  no colon.\<close>

definition range_bounds :: "string \<Rightarrow> pyval \<times> pyval" where
  "range_bounds ts =
     (let range_parts = py_split CHR '':'' ts in
      if length range_parts = 1 then (PyStr (range_parts ! 0), PyInt 0)
      else (PyStr (range_parts ! 0), PyStr (range_parts ! 1)))"

text \<open>The end of \<open>update_from_name\<close>, once \<open>high\<close> and \<open>low\<close> are known.\<close>

definition set_range :: "Port \<Rightarrow> string \<Rightarrow> pyval \<Rightarrow> pyval \<Rightarrow> Port" where
  "set_range self vt hi lo =
     self\<lparr> length' := (case (hi, lo) of
                          (PyInt h, PyInt l) \<Rightarrow> py_str (h - l + 1)
                        | _ \<Rightarrow> str_of hi @ ''-'' @ str_of lo),
           high := str_of hi,
           low := str_of lo,
           vhdl_type := vt @ ''('' @ str_of hi @ '' downto '' @ str_of lo @ '')'' \<rparr>"

text \<open>\<open>Port.update_from_name\<close>; the port after the call is the result.\<close>

definition update_from_name :: "Port \<Rightarrow> Generic list \<Rightarrow> bool \<Rightarrow> Port res" where
  "update_from_name self generic_list do_eval =
     (case re_name_hint (name self) of
        None \<Rightarrow>
          Value (self\<lparr> vhdl_type := ''std_logic'', high := ''0'', low := ''0'', length' := ''1'' \<rparr>)
      | Some (p0, p1) \<Rightarrow>
          if p1 = ''b'' then
            Value (self\<lparr> vhdl_type := ''boolean'', high := ''0'', low := ''0'', length' := ''1'' \<rparr>)
          else if p1 = ''integer'' then
            Value (self\<lparr> vhdl_type := ''integer'', high := ''31'', low := ''0'', length' := ''32'' \<rparr>)
          else
            (case hint_type p1 of (vt, ts) \<Rightarrow>
             case range_bounds ts of (high_str, low_str) \<Rightarrow>
               let self1 = self\<lparr> name := p0, vhdl_type := vt \<rparr> in
               if do_eval then
                 (case parse_portsize_part high_str generic_list of
                    Raised e \<Rightarrow> Raised e
                  | FloatResult \<Rightarrow> FloatResult
                  | Value hi \<Rightarrow>
                      (case parse_portsize_part low_str generic_list of
                         Raised e \<Rightarrow> Raised e
                       | FloatResult \<Rightarrow> FloatResult
                       | Value lo \<Rightarrow> Value (set_range self1 vt hi lo)))
               else Value (set_range self1 vt high_str low_str)))"

section \<open>Components, nets and signals\<close>

text \<open>The records of the netlist that the generator reads: a property of a component, a
  component (\<open>comp_part\<close> is \<open>comp.libsource.part\<close>), a node of a net and a net.\<close>

record CompProperty =
  prop_name :: string
  prop_value :: string

record Comp =
  comp_ref :: string
  comp_value :: string
  comp_part :: string
  comp_properties :: "CompProperty list"

record Node =
  ref :: string
  pin :: string
  pintype :: string
  pinfunction :: string

record Net =
  code :: string
  net_name :: string
  nodes :: "Node list"

text \<open>The dataclass \<open>Component\<close>, used for library parts and for instances; the reference
  \<open>component\<close> to the library part is its index in \<open>component_list\<close>.\<close>

record Component =
  c_name :: string
  instance_name :: string
  ports :: "Port list"
  properties :: "Generic list"
  component :: "nat option"

text \<open>A \<open>Connection\<close> refers to a port object of an instance; the reference is the pair of
  the index of the instance in \<open>instance_list\<close> and of the port in its \<open>ports\<close>.\<close>

record Connection =
  conn_ref :: string
  conn_pin :: string
  conn_port :: "(nat \<times> nat) option"

record Signal =
  sig_name :: string
  sig_code :: string
  sig_vhdl_type :: string
  connections :: "Connection list"

text \<open>\<open>find_property\<close>: the value of the first property of that name, else the default.\<close>

fun find_property :: "CompProperty list \<Rightarrow> string \<Rightarrow> string \<Rightarrow> string" where
  "find_property [] nm dflt = dflt"
| "find_property (prop # rest) nm dflt =
     (if prop_name prop = nm then prop_value prop else find_property rest nm dflt)"

subsection \<open>The loop over the components\<close>

text \<open>What the second loop of \<open>generate_code\<close> over \<open>nl.components\<close> changes.\<close>

record build_state =
  port_list :: "Port list"
  full_item_list :: "(Generic + Port) list"
  direct_connects :: "string \<rightharpoonup> string"
  instance_list :: "Component list"

text \<open>The branch for the parts \<open>IN\<close>, \<open>OUT\<close> and \<open>INOUT\<close>.\<close>

definition add_io_port :: "Generic list \<Rightarrow> Comp \<Rightarrow> build_state \<Rightarrow> build_state res" where
  "add_io_port generic_list comp' st =
     (let port = Port0\<lparr> name := comp_value comp',
                         dirstr := lower (comp_part comp'),
                         typestr := find_property (comp_properties comp') ''TYPE'' ''std_logic'' \<rparr>
      in case update_from_name port generic_list False of
           Raised e \<Rightarrow> Raised e
         | FloatResult \<Rightarrow> FloatResult
         | Value port' \<Rightarrow>
             Value (st\<lparr> port_list := port_list st @ [port'],
                        full_item_list := full_item_list st @ [Inr port'],
                        direct_connects := (direct_connects st)(comp_ref comp' \<mapsto> name port') \<rparr>))"

text \<open>One round of that loop.  The last branch builds an instance from the library parts
  and appends it; what it builds is the parameter \<open>build\<close>, since no claim depends
  on it.\<close>

definition comp_step ::
  "(Comp \<Rightarrow> Component res) \<Rightarrow> Generic list \<Rightarrow> Comp \<Rightarrow> build_state \<Rightarrow> build_state res"
where
  "comp_step build generic_list comp' st =
     (if comp_part comp' \<in> set [''IN'', ''OUT'', ''INOUT''] then add_io_port generic_list comp' st
      else if comp_part comp' \<in> set [''PARAMETER'', ''CONSTANT''] then Value st
      else (case build comp' of
              Raised e \<Rightarrow> Raised e
            | FloatResult \<Rightarrow> FloatResult
            | Value c \<Rightarrow> Value (st\<lparr> instance_list := instance_list st @ [c] \<rparr>)))"

subsection \<open>The loop over the nets\<close>

text \<open>What the loop over \<open>nl.nets\<close> changes: the ports of the instances, the list of
  signals, and the warnings printed (the name of the signal and the two types).\<close>

record net_state =
  instances :: "Component list"
  signal_list :: "Signal list"
  warnings :: "(string \<times> string \<times> string) list"

text \<open>The target of a port on an unconnected net.\<close>

definition unconnected_target :: "Port \<Rightarrow> string" where
  "unconnected_target port =
     (if dirstr port = ''in'' then
        (if vhdl_type port = ''boolean'' then ''false''
         else if vhdl_type port = ''std_logic'' then [CHR 0x27, CHR ''0'', CHR 0x27]
         else ''(others => '' @ [CHR 0x27, CHR ''0'', CHR 0x27] @ '')'')
      else ''open'')"

text \<open>The two inner loops for one node: every port with the pin number of the node, in
  every instance with the reference of the node, gets its target from \<open>f\<close>.\<close>

definition set_targets :: "(Port \<Rightarrow> string) \<Rightarrow> Node \<Rightarrow> Component list \<Rightarrow> Component list" where
  "set_targets f node insts =
     map (\<lambda>c. if instance_name c = ref node
               then c\<lparr> ports := map (\<lambda>p. if num p = pin node then p\<lparr> target := f p \<rparr> else p)
                                       (ports c) \<rparr>
               else c) insts"

text \<open>The port object that \<open>connection.port\<close> holds after the inner loops: the last port
  with the pin number in the last instance with the reference that has such a port.\<close>

definition last_index :: "('a \<Rightarrow> bool) \<Rightarrow> 'a list \<Rightarrow> nat option" where
  "last_index P xs =
     (case filter (\<lambda>i. P (xs ! i)) (rev [0..<length xs]) of [] \<Rightarrow> None | i # _ \<Rightarrow> Some i)"

definition find_port :: "Node \<Rightarrow> Component list \<Rightarrow> (nat \<times> nat) option" where
  "find_port node insts =
     (case last_index (\<lambda>c. instance_name c = ref node \<and> list_ex (\<lambda>p. num p = pin node) (ports c))
             insts of
        None \<Rightarrow> None
      | Some i \<Rightarrow>
          (case last_index (\<lambda>p. num p = pin node) (ports (insts ! i)) of
             None \<Rightarrow> None
           | Some j \<Rightarrow> Some (i, j)))"

text \<open>\<open>re.sub("\(.*?:.*?\)", '', name)\<close>.  At an opening bracket the pattern matches when,
  before any line feed, a colon follows and a closing bracket after the colon; it ends at
  the first such closing bracket, and the search goes on behind it.\<close>

definition match_range :: "string \<Rightarrow> string option" where
  "match_range cs =
     (case dropWhile (\<lambda>c. c \<noteq> CHR '':'' \<and> c \<noteq> CHR 0x0A) cs of
        [] \<Rightarrow> None
      | d # r \<Rightarrow>
          if d \<noteq> CHR '':'' then None
          else (case dropWhile (\<lambda>c. c \<noteq> CHR '')'' \<and> c \<noteq> CHR 0x0A) r of
                  [] \<Rightarrow> None
                | e # r' \<Rightarrow> if e = CHR '')'' then Some r' else None))"

function strip_ranges :: "string \<Rightarrow> string" where
  "strip_ranges [] = []"
| "strip_ranges (c # cs) =
     (if c = CHR ''('' then
        (case match_range cs of
           None \<Rightarrow> c # strip_ranges cs
         | Some r \<Rightarrow> if length r \<le> length cs then strip_ranges r else [])
      else c # strip_ranges cs)"
  by pat_completeness auto
termination
  by (relation "measure length") auto

text \<open>The name of the signal of a net, before the direct connections are looked at.\<close>

definition signal_name :: "string \<Rightarrow> string" where
  "signal_name nm =
     replace (replace (replace (strip_ranges (replace nm ''/'' '''')) ''-'' ''_'') ''('' '''')
             '')'' ''''"

text \<open>The first node whose reference is in \<open>direct_connects\<close> renames the signal and sets
  \<open>skip\<close>.\<close>

fun direct_name :: "(string \<rightharpoonup> string) \<Rightarrow> Node list \<Rightarrow> string option" where
  "direct_name dc [] = None"
| "direct_name dc (node # rest) =
     (case dc (ref node) of Some nm \<Rightarrow> Some nm | None \<Rightarrow> direct_name dc rest)"

text \<open>The loop that builds the connections of a signal and sets the targets.\<close>

fun connect_nodes ::
  "string \<Rightarrow> Node list \<Rightarrow> Component list \<Rightarrow> Connection list \<Rightarrow> Component list \<times> Connection list"
where
  "connect_nodes nm [] insts conns = (insts, conns)"
| "connect_nodes nm (node # rest) insts conns =
     connect_nodes nm rest (set_targets (\<lambda>p. nm) node insts)
       (conns @ [\<lparr> conn_ref = ref node, conn_pin = pin node, conn_port = find_port node insts \<rparr>])"

text \<open>The loop that gives the signal its type: the type of the port of a connection is
  taken while the signal has none, and a port of another type is a warning.\<close>

fun signal_type ::
  "string \<Rightarrow> Component list \<Rightarrow> Connection list \<Rightarrow> string \<Rightarrow> (string \<times> string \<times> string) list
     \<Rightarrow> string \<times> (string \<times> string \<times> string) list"
where
  "signal_type nm insts [] ty ws = (ty, ws)"
| "signal_type nm insts (conn # rest) ty ws =
     (case conn_port conn of
        None \<Rightarrow> signal_type nm insts rest ty ws
      | Some (i, j) \<Rightarrow>
          (let pt = vhdl_type (ports (insts ! i) ! j) in
           if ty = [] then signal_type nm insts rest pt ws
           else if ty \<noteq> pt then signal_type nm insts rest ty (ws @ [(nm, ty, pt)])
           else signal_type nm insts rest ty ws))"

text \<open>One round of the loop over the nets.\<close>

definition net_step :: "(string \<rightharpoonup> string) \<Rightarrow> Net \<Rightarrow> net_state \<Rightarrow> net_state" where
  "net_step dc net st =
     (if startswith (net_name net) ''unconnected'' then
        st\<lparr> instances := fold (set_targets unconnected_target) (nodes net) (instances st) \<rparr>
      else
        (let nm0 = signal_name (net_name net);
             skip = (direct_name dc (nodes net) \<noteq> None);
             nm = (case direct_name dc (nodes net) of Some n \<Rightarrow> n | None \<Rightarrow> nm0)
         in case connect_nodes nm (nodes net) (instances st) [] of
              (insts, conns) \<Rightarrow>
                (case signal_type nm insts conns [] (warnings st) of
                   (ty, ws) \<Rightarrow>
                     st\<lparr> instances := insts,
                         warnings := ws,
                         signal_list :=
                           (if skip then signal_list st
                            else signal_list st @
                                 [\<lparr> sig_name = nm, sig_code = code net, sig_vhdl_type = ty,
                                    connections = conns \<rparr>]) \<rparr>)))"

definition net_loop :: "(string \<rightharpoonup> string) \<Rightarrow> Net list \<Rightarrow> net_state \<Rightarrow> net_state" where
  "net_loop dc nets st = fold (net_step dc) nets st"

text \<open>A port of the instance named \<open>iname\<close> after the targets are set for the nodes
  \<open>ns\<close>: it has its target from \<open>f\<close> when one of the nodes names the instance and the
  pin of the port.\<close>

definition port_after :: "(Port \<Rightarrow> string) \<Rightarrow> Node list \<Rightarrow> string \<Rightarrow> Port \<Rightarrow> Port" where
  "port_after f ns iname p =
     (if \<exists>node\<in>set ns. iname = ref node \<and> num p = pin node then p\<lparr> target := f p \<rparr> else p)"

section \<open>Facts about the string functions and \<open>align_on_pipe\<close>\<close>

lemma py_split_ne: "py_split c s \<noteq> []"
  by (induction s) (auto simp: Let_def)

lemma py_split_length: "length (py_split c s) = Suc (length (filter (\<lambda>x. x = c) s))"
  by (induction s) (auto simp: Let_def py_split_ne)

lemma py_split_no_sep: "p \<in> set (py_split c s) \<Longrightarrow> c \<notin> set p"
proof (induction s arbitrary: p)
  case Nil then show ?case by simp
next
  case (Cons x xs)
  obtain h t where r: "py_split c xs = h # t" using py_split_ne[of c xs] by (cases "py_split c xs") auto
  show ?case using Cons r by (auto simp: Let_def split: if_splits)
qed

lemma ljust_set: "set (ljust s w) \<subseteq> insert CHR '' '' (set s)"
  by (auto simp: ljust_def)

lemma join_set: "set (join sep xs) \<subseteq> set sep \<union> \<Union>(set ` set xs)"
  by (induction sep xs rule: join.induct) auto

lemma max_loop_ok:
  "\<forall>i\<in>set is. i < length mx \<Longrightarrow>
   \<exists>mx'. max_loop parts is mx = Inr mx' \<and> length mx' = length mx \<and>
     (\<forall>j<length mx. mx' ! j = (if j \<in> set is then max (mx ! j) (length (parts ! j)) else mx ! j))"
proof (induction "is" arbitrary: mx)
  case Nil then show ?case by simp
next
  case (Cons i "is")
  let ?m = "if length (parts ! i) > mx ! i then mx[i := length (parts ! i)] else mx"
  have len: "length ?m = length mx" by simp
  have "\<forall>i\<in>set is. i < length ?m" using Cons.prems by simp
  from Cons.IH[OF this] obtain mx' where
    r: "max_loop parts is ?m = Inr mx'" and l: "length mx' = length ?m"
    and v: "\<forall>j<length ?m. mx' ! j = (if j \<in> set is then max (?m ! j) (length (parts ! j)) else ?m ! j)"
    by blast
  have i: "i < length mx" using Cons.prems by simp
  have "max_loop parts (i # is) mx = Inr mx'" using r i by simp
  moreover have "length mx' = length mx" using l by simp
  moreover have "\<forall>j<length mx. mx' ! j = (if j \<in> set (i # is) then max (mx ! j) (length (parts ! j)) else mx ! j)"
  proof (intro allI impI)
    fix j assume j: "j < length mx"
    then have "mx' ! j = (if j \<in> set is then max (?m ! j) (length (parts ! j)) else ?m ! j)"
      using v by simp
    then show "mx' ! j = (if j \<in> set (i # is) then max (mx ! j) (length (parts ! j)) else mx ! j)"
      using i j by (cases "j = i") (auto simp: max_def)
  qed
  ultimately show ?case by blast
qed

lemma py_split_pipe_count: "length (py_split CHR ''|'' l) = Suc (pipe_count l)"
  by (simp add: py_split_length pipe_count_def)

lemma Max_insert_max:
  "finite S \<Longrightarrow> Max (insert (max (x::nat) a) S) = Max (insert x (insert a S))"
  by (cases "S = {}") (simp_all add: max.assoc)

lemma fmt_loop_ok:
  "\<forall>i\<in>set is. i < length parts \<Longrightarrow>
   fmt_loop parts mx is acc = Inr (acc @ concat (map (\<lambda>i. ljust (parts ! i) (mx ! i)) is))"
  by (induction "is" arbitrary: acc) auto

lemma seg_max_ok:
  "\<forall>l\<in>set ls. length (py_split CHR ''|'' l) = length mx \<Longrightarrow>
   \<exists>mx'. seg_max ls mx = Inr mx' \<and> length mx' = length mx \<and>
     (\<forall>j<length mx. mx' ! j =
        Max (insert (mx ! j) ((\<lambda>l. length (py_split CHR ''|'' l ! j)) ` set ls)))"
proof (induction ls arbitrary: mx)
  case Nil then show ?case by simp
next
  case (Cons l ls)
  define parts where "parts = py_split CHR ''|'' l"
  have lp: "length parts = length mx" using Cons.prems by (simp add: parts_def)
  have "\<forall>i\<in>set [0..<length parts]. i < length mx" using lp by simp
  from max_loop_ok[OF this, of parts] obtain m1 where
    r1: "max_loop parts [0..<length parts] mx = Inr m1" and l1: "length m1 = length mx"
    and v1: "\<forall>j<length mx. m1 ! j =
       (if j \<in> set [0..<length parts] then max (mx ! j) (length (parts ! j)) else mx ! j)"
    by blast
  have "\<forall>l\<in>set ls. length (py_split CHR ''|'' l) = length m1" using Cons.prems l1 by simp
  from Cons.IH[OF this] obtain mx' where
    r2: "seg_max ls m1 = Inr mx'" and l2: "length mx' = length m1"
    and v2: "\<forall>j<length m1. mx' ! j =
        Max (insert (m1 ! j) ((\<lambda>l. length (py_split CHR ''|'' l ! j)) ` set ls))"
    by blast
  have "seg_max (l # ls) mx = Inr mx'" using r1 r2 by (simp add: Let_def parts_def)
  moreover have "length mx' = length mx" using l1 l2 by simp
  moreover have "\<forall>j<length mx. mx' ! j =
        Max (insert (mx ! j) ((\<lambda>l. length (py_split CHR ''|'' l ! j)) ` set (l # ls)))"
  proof (intro allI impI)
    fix j assume j: "j < length mx"
    define S where "S = (\<lambda>l. length (py_split CHR ''|'' l ! j)) ` set ls"
    have fin: "finite S" by (simp add: S_def)
    have a: "m1 ! j = max (mx ! j) (length (parts ! j))" using v1 j lp by simp
    have b: "mx' ! j = Max (insert (m1 ! j) S)"
      using v2 j l1 by (simp add: S_def)
    have "mx' ! j = Max (insert (mx ! j) (insert (length (parts ! j)) S))"
      unfolding b a by (rule Max_insert_max[OF fin])
    moreover have "(\<lambda>l. length (py_split CHR ''|'' l ! j)) ` set (l # ls)
        = insert (length (parts ! j)) S"
      by (simp add: S_def parts_def)
    ultimately show "mx' ! j =
        Max (insert (mx ! j) ((\<lambda>l. length (py_split CHR ''|'' l ! j)) ` set (l # ls)))"
      by simp
  qed
  ultimately show ?case by blast
qed

lemma seg_out_ok:
  "\<forall>l\<in>set ls. length (py_split CHR ''|'' l) = length mx \<Longrightarrow>
   seg_out ls mx out =
     Inr (out @ map (\<lambda>l. concat (map (\<lambda>i. ljust (py_split CHR ''|'' l ! i) (mx ! i))
                                    [0..<length mx])) ls)"
proof (induction ls arbitrary: out)
  case Nil then show ?case by simp
next
  case (Cons l ls)
  have "\<forall>i\<in>set [0..<length mx]. i < length (py_split CHR ''|'' l)" using Cons.prems by simp
  from fmt_loop_ok[OF this, of mx "[]"]
  have f: "fmt_loop (py_split CHR ''|'' l) mx [0..<length mx] [] =
     Inr (concat (map (\<lambda>i. ljust (py_split CHR ''|'' l ! i) (mx ! i)) [0..<length mx]))"
    by simp
  have "\<forall>l\<in>set ls. length (py_split CHR ''|'' l) = length mx" using Cons.prems by simp
  from Cons.IH[OF this] f show ?case by (simp add: Let_def)
qed

lemma run_ok:
  assumes ne: "run \<noteq> []"
    and un: "\<forall>l\<in>set run. pipe_count l = pipe_count (hd run)"
  shows "\<exists>mx. seg_max run (replicate (length (py_split CHR ''|'' (hd run))) 0) = Inr mx \<and>
           seg_out run mx out = Inr (out @ map (padded_line run) run)"
proof -
  define n where "n = length (py_split CHR ''|'' (hd run))"
  have n: "n = Suc (pipe_count (hd run))" by (simp add: n_def py_split_pipe_count)
  have a: "\<forall>l\<in>set run. length (py_split CHR ''|'' l) = length (replicate n (0::nat))"
    using un by (simp add: py_split_pipe_count n)
  from seg_max_ok[OF a] obtain mx where
    r: "seg_max run (replicate n 0) = Inr mx" and l: "length mx = n"
    and v: "\<forall>j<n. mx ! j =
        Max (insert (replicate n 0 ! j) ((\<lambda>l. length (py_split CHR ''|'' l ! j)) ` set run))"
    by auto
  have w: "mx ! j = run_width run j" if "j < n" for j
  proof -
    have "mx ! j = Max (insert 0 ((\<lambda>l. length (py_split CHR ''|'' l ! j)) ` set run))"
      using v that by simp
    also have "\<dots> = run_width run j"
      using ne by (simp add: run_width_def)
    finally show ?thesis .
  qed
  have b: "\<forall>l\<in>set run. length (py_split CHR ''|'' l) = length mx"
    using a l by simp
  have "map (\<lambda>l. concat (map (\<lambda>i. ljust (py_split CHR ''|'' l ! i) (mx ! i)) [0..<length mx])) run
        = map (padded_line run) run"
  proof (rule map_cong[OF refl])
    fix x assume x: "x \<in> set run"
    have e: "Suc (pipe_count x) = n" using un x n by simp
    have "map (\<lambda>i. ljust (py_split CHR ''|'' x ! i) (mx ! i)) [0..<n]
        = map (\<lambda>i. ljust (py_split CHR ''|'' x ! i) (run_width run i)) [0..<n]"
      by (rule map_cong[OF refl]) (simp add: w)
    then have "concat (map (\<lambda>i. ljust (py_split CHR ''|'' x ! i) (mx ! i)) [0..<n])
       = concat (map (\<lambda>i. ljust (py_split CHR ''|'' x ! i) (run_width run i)) [0..<n])"
      by (rule arg_cong)
    then show "concat (map (\<lambda>i. ljust (py_split CHR ''|'' x ! i) (mx ! i)) [0..<length mx])
       = padded_line run x"
      unfolding padded_line_def e l .
  qed
  with seg_out_ok[OF b, of out] r show ?thesis unfolding n_def by simp
qed

lemma align_segs_step:
  assumes un: "\<forall>l\<in>set (f # rest). pipe_count l = pipe_count f"
  shows "align_segs ((f # rest) # runs) out =
         align_segs runs (out @ map (padded_line (f # rest)) (f # rest))"
proof -
  have ne: "f # rest \<noteq> []" by simp
  have un': "\<forall>l\<in>set (f # rest). pipe_count l = pipe_count (hd (f # rest))"
    using un by (simp only: list.sel)
  from run_ok[OF ne un', of out] obtain mx where
    r1: "seg_max (f # rest) (replicate (length (py_split CHR ''|'' (hd (f # rest)))) 0) = Inr mx"
    and r2: "seg_out (f # rest) mx out = Inr (out @ map (padded_line (f # rest)) (f # rest))"
    by blast
  have r1': "seg_max (f # rest) (replicate (length (py_split CHR ''|'' f)) 0) = Inr mx"
    using r1 by (simp only: list.sel)
  show ?thesis
    by (simp only: align_segs.simps list.case r1' r2 sum.case)
qed

lemma align_segs_ok:
  "\<forall>run\<in>set runs. run \<noteq> [] \<and> (\<forall>l\<in>set run. pipe_count l = pipe_count (hd run)) \<Longrightarrow>
   align_segs runs out = Inr (out @ concat (map (\<lambda>run. map (padded_line run) run) runs))"
proof (induction runs arbitrary: out)
  case Nil then show ?case by simp
next
  case (Cons run runs)
  have p: "run \<in> set (run # runs)" by simp
  note h = bspec[OF Cons.prems p]
  have ne: "run \<noteq> []" by (rule conjunct1[OF h])
  have un: "\<forall>l\<in>set run. pipe_count l = pipe_count (hd run)" by (rule conjunct2[OF h])
  obtain f rest where run: "run = f # rest" using ne by (cases run) simp_all
  note un' = un[unfolded run list.sel]
  have step: "align_segs (run # runs) out = align_segs runs (out @ map (padded_line run) run)"
    unfolding run by (rule align_segs_step[OF un'])
  have rest: "\<forall>r\<in>set runs. r \<noteq> [] \<and> (\<forall>l\<in>set r. pipe_count l = pipe_count (hd r))"
  proof
    fix r assume "r \<in> set runs"
    then have "r \<in> set (run # runs)" by simp
    from bspec[OF Cons.prems this]
    show "r \<noteq> [] \<and> (\<forall>l\<in>set r. pipe_count l = pipe_count (hd r))" .
  qed
  have "align_segs (run # runs) out =
        Inr ((out @ map (padded_line run) run) @ concat (map (\<lambda>run. map (padded_line run) run) runs))"
    by (simp only: step Cons.IH[OF rest])
  then show ?case by simp
qed

lemma seg_inv_init: "seg_inv (0, [], []) []"
  by (simp add: seg_inv_def)

lemma seg_step_inv:
  assumes inv: "seg_inv st ls"
  shows "seg_inv (seg_step st l) (ls @ [l])"
proof -
  obtain n segs cur where st: "st = (n, segs, cur)" by (cases st) auto
  define k where "k = Suc (pipe_count l)"
  have klen: "length (py_split CHR ''|'' l) = k" by (simp add: k_def py_split_pipe_count)
  from inv have c1: "concat segs @ cur = ls"
    and c2: "\<forall>s\<in>set segs. s \<noteq> [] \<and> (\<forall>l\<in>set s. pipe_count l = pipe_count (hd s))"
    and c3: "\<forall>l\<in>set cur. Suc (pipe_count l) = n"
    and c4: "cur = [] \<longrightarrow> segs = []"
    and c5: "distinct_adj (map (\<lambda>s. pipe_count (hd s)) segs)"
    and c6: "segs \<noteq> [] \<longrightarrow> Suc (pipe_count (hd (last segs))) \<noteq> n"
    unfolding seg_inv_def st prod.case by blast+
  consider (same) "k = n" | (new) "k \<noteq> n" "cur \<noteq> []" | (first) "k \<noteq> n" "cur = []" by blast
  then show ?thesis
  proof cases
    case same
    have s: "seg_step st l = (n, segs, cur @ [l])"
      by (simp add: seg_step_def st klen same)
    have e3: "\<forall>l'\<in>set (cur @ [l]). Suc (pipe_count l') = n"
      using c3 same by (simp add: k_def)
    have e1: "concat segs @ cur @ [l] = ls @ [l]" using c1 by simp
    have e4: "cur @ [l] = [] \<longrightarrow> segs = []" by simp
    show ?thesis unfolding s seg_inv_def prod.case by (intro conjI e1 c2 e3 e4 c5 c6)
  next
    case first
    then have segs: "segs = []" using c4 by simp
    have s: "seg_step st l = (k, [], [l])"
      by (simp add: seg_step_def st klen first segs)
    have "ls = []" using c1 first segs by simp
    then show ?thesis unfolding s seg_inv_def by (simp add: k_def)
  next
    case new
    have s: "seg_step st l = (k, segs @ [cur], [l])"
      by (simp add: seg_step_def st klen new)
    have hdcur: "hd cur \<in> set cur" using new by simp
    have ncur: "Suc (pipe_count (hd cur)) = n" using c3 hdcur by blast
    have ucur: "\<forall>l'\<in>set cur. pipe_count l' = pipe_count (hd cur)"
    proof
      fix l' assume "l' \<in> set cur"
      then have "Suc (pipe_count l') = n" using c3 by blast
      then show "pipe_count l' = pipe_count (hd cur)" using ncur by simp
    qed
    have d1: "concat (segs @ [cur]) @ [l] = ls @ [l]" using c1 by simp
    have d2: "\<forall>s\<in>set (segs @ [cur]). s \<noteq> [] \<and> (\<forall>l\<in>set s. pipe_count l = pipe_count (hd s))"
    proof
      fix s assume "s \<in> set (segs @ [cur])"
      then consider "s \<in> set segs" | "s = cur" by auto
      then show "s \<noteq> [] \<and> (\<forall>l\<in>set s. pipe_count l = pipe_count (hd s))"
      proof cases
        case 1 then show ?thesis using c2 by blast
      next
        case 2 then show ?thesis using new ucur by blast
      qed
    qed
    have d3: "\<forall>l'\<in>set [l]. Suc (pipe_count l') = k" by (simp add: k_def)
    have d5: "distinct_adj (map (\<lambda>s. pipe_count (hd s)) (segs @ [cur]))"
    proof (cases "segs = []")
      case True then show ?thesis by simp
    next
      case False
      then have "Suc (pipe_count (hd (last segs))) \<noteq> Suc (pipe_count (hd cur))"
        using c6 ncur by simp
      then have "last (map (\<lambda>s. pipe_count (hd s)) segs) \<noteq> pipe_count (hd cur)"
        using False by (simp add: last_map)
      then show ?thesis using c5 by (simp add: distinct_adj_append_iff)
    qed
    have d6: "Suc (pipe_count (hd (last (segs @ [cur])))) \<noteq> k"
      using ncur new by simp
    have d4: "[l] = [] \<longrightarrow> segs @ [cur] = []" by simp
    have d6': "segs @ [cur] \<noteq> [] \<longrightarrow> Suc (pipe_count (hd (last (segs @ [cur])))) \<noteq> k"
      using d6 by blast
    show ?thesis unfolding s seg_inv_def prod.case by (intro conjI d1 d2 d3 d4 d5 d6')
  qed
qed

lemma foldl_seg_inv:
  "seg_inv st pre \<Longrightarrow> seg_inv (foldl seg_step st ls) (pre @ ls)"
proof (induction ls arbitrary: st pre)
  case Nil then show ?case by simp
next
  case (Cons l ls)
  from Cons.IH[OF seg_step_inv[OF Cons.prems, of l]] show ?case by simp
qed

lemma segments_props:
  "concat (segments lines) = lines \<and>
   (\<forall>run\<in>set (segments lines). run \<noteq> [] \<and> (\<forall>l\<in>set run. pipe_count l = pipe_count (hd run))) \<and>
   distinct_adj (map (\<lambda>run. pipe_count (hd run)) (segments lines))"
proof -
  obtain n segs cur where f: "foldl seg_step (0, [], []) lines = (n, segs, cur)"
    by (cases "foldl seg_step (0, [], []) lines") auto
  have "seg_inv (n, segs, cur) lines"
    using foldl_seg_inv[OF seg_inv_init, of lines] by (simp add: f)
  then have c1: "concat segs @ cur = lines"
    and c2: "\<forall>s\<in>set segs. s \<noteq> [] \<and> (\<forall>l\<in>set s. pipe_count l = pipe_count (hd s))"
    and c3: "\<forall>l\<in>set cur. Suc (pipe_count l) = n"
    and c4: "cur = [] \<longrightarrow> segs = []"
    and c5: "distinct_adj (map (\<lambda>s. pipe_count (hd s)) segs)"
    and c6: "segs \<noteq> [] \<longrightarrow> Suc (pipe_count (hd (last segs))) \<noteq> n"
    unfolding seg_inv_def prod.case by blast+
  show ?thesis
  proof (cases "cur = []")
    case True
    then have s: "segments lines = []" using c4 by (simp add: segments_def f)
    have "lines = []" using c1 c4 True by simp
    then show ?thesis unfolding s by simp
  next
    case False
    have s: "segments lines = segs @ [cur]" using False by (simp add: segments_def f)
    have hdcur: "hd cur \<in> set cur" using False by simp
    have ncur: "Suc (pipe_count (hd cur)) = n" using c3 hdcur by blast
    have ucur: "\<forall>l'\<in>set cur. pipe_count l' = pipe_count (hd cur)"
    proof
      fix l' assume "l' \<in> set cur"
      then have "Suc (pipe_count l') = n" using c3 by blast
      then show "pipe_count l' = pipe_count (hd cur)" using ncur by simp
    qed
    have d1: "concat (segs @ [cur]) = lines" using c1 by simp
    have d2: "\<forall>s\<in>set (segs @ [cur]). s \<noteq> [] \<and> (\<forall>l\<in>set s. pipe_count l = pipe_count (hd s))"
    proof
      fix s assume "s \<in> set (segs @ [cur])"
      then consider "s \<in> set segs" | "s = cur" by auto
      then show "s \<noteq> [] \<and> (\<forall>l\<in>set s. pipe_count l = pipe_count (hd s))"
      proof cases
        case 1 then show ?thesis using c2 by blast
      next
        case 2 then show ?thesis using False ucur by blast
      qed
    qed
    have d5: "distinct_adj (map (\<lambda>s. pipe_count (hd s)) (segs @ [cur]))"
    proof (cases "segs = []")
      case True then show ?thesis by simp
    next
      case False
      then have "Suc (pipe_count (hd (last segs))) \<noteq> Suc (pipe_count (hd cur))"
        using c6 ncur by simp
      then have "last (map (\<lambda>s. pipe_count (hd s)) segs) \<noteq> pipe_count (hd cur)"
        using False by (simp add: last_map)
      then show ?thesis using c5 by (simp add: distinct_adj_append_iff)
    qed
    show ?thesis unfolding s by (intro conjI d1 d2 d5)
  qed
qed

lemma align_on_pipe_eq:
  "align_on_pipe doc =
     Inr (join [CHR 0x0A]
            (concat (map (\<lambda>run. map (padded_line run) run) (segments (splitlines doc)))))"
proof -
  have "\<forall>run\<in>set (segments (splitlines doc)).
          run \<noteq> [] \<and> (\<forall>l\<in>set run. pipe_count l = pipe_count (hd run))"
    using segments_props[of "splitlines doc"] by blast
  from align_segs_ok[OF this, of "[]"] show ?thesis
    by (simp add: align_on_pipe_def)
qed

lemma padded_line_no_pipe: "CHR ''|'' \<notin> set (padded_line run line)"
proof
  assume "CHR ''|'' \<in> set (padded_line run line)"
  then obtain i where i0: "i \<in> set [0..<Suc (pipe_count line)]"
    and m: "CHR ''|'' \<in> set (ljust (py_split CHR ''|'' line ! i) (run_width run i))"
    unfolding padded_line_def set_concat set_map by blast
  have i: "i < Suc (pipe_count line)" using i0 unfolding set_upt by simp
  have "i < length (py_split CHR ''|'' line)" using i by (simp add: py_split_pipe_count)
  then have "py_split CHR ''|'' line ! i \<in> set (py_split CHR ''|'' line)" by simp
  then have "CHR ''|'' \<notin> set (py_split CHR ''|'' line ! i)" by (rule py_split_no_sep)
  moreover have "CHR ''|'' \<in> set (py_split CHR ''|'' line ! i)"
    using m ljust_set[of "py_split CHR ''|'' line ! i" "run_width run i"] by auto
  ultimately show False by blast
qed

lemma padded_line_spaced: "spaced_columns line (padded_line run line)"
proof -
  define cols where "cols = py_split CHR ''|'' line"
  define ws where "ws = map (\<lambda>i. run_width run i - length (cols ! i)) [0..<length cols]"
  have n: "Suc (pipe_count line) = length cols" by (simp add: cols_def py_split_pipe_count)
  have z: "zip cols ws = map (\<lambda>i. (cols ! i, run_width run i - length (cols ! i))) [0..<length cols]"
    unfolding ws_def by (rule nth_equalityI) simp_all
  have "padded_line run line =
          concat (map (\<lambda>(col, w). col @ replicate w CHR '' '') (zip cols ws))"
    unfolding z padded_line_def n cols_def[symmetric] by (simp add: ljust_def comp_def)
  moreover have "length ws = length cols" by (simp add: ws_def)
  ultimately show ?thesis unfolding spaced_columns_def cols_def[symmetric] by blast
qed

lemma list_all2_concat_map:
  assumes "\<And>run line. R line (f run line)"
  shows "list_all2 R (concat runs) (concat (map (\<lambda>run. map (f run) run) runs))"
proof (induction runs)
  case Nil show ?case by simp
next
  case (Cons r rs)
  have "list_all2 R r (map (f r) r)" by (simp add: list_all2_conv_all_nth assms)
  with Cons show ?case by (simp add: list_all2_appendI)
qed

section \<open>Claims about \<open>align_on_pipe\<close>\<close>

text \<open>
  Claim C8.  \<open>align_on_pipe\<close> cuts the lines of its input into runs of consecutive lines
  with the same number of pipes: the runs concatenated are the lines, no run is empty,
  the lines of a run share one pipe count, and two neighbouring runs differ in it.  The
  output is the lines, joined by a line feed, each with every column of its run padded
  with spaces to the largest width that column has in the run.  For the two lines
  \<open>a|bb|c\<close> and \<open>aaa|b|cc\<close>, which are one run, the column widths are 3, 2 and 2 and the
  output lines are \<open>a  bbc \<close> and \<open>aaab cc\<close>.
\<close>

theorem align_on_pipe_runs:
  "concat (segments (splitlines doc)) = splitlines doc \<and>
   (\<forall>run\<in>set (segments (splitlines doc)).
      run \<noteq> [] \<and> (\<forall>l\<in>set run. pipe_count l = pipe_count (hd run))) \<and>
   distinct_adj (map (\<lambda>run. pipe_count (hd run)) (segments (splitlines doc))) \<and>
   align_on_pipe doc =
     Inr (join [CHR 0x0A]
            (concat (map (\<lambda>run. map (padded_line run) run) (segments (splitlines doc))))) \<and>
   segments (splitlines (''a|bb|c'' @ [CHR 0x0A] @ ''aaa|b|cc'')) = [[''a|bb|c'', ''aaa|b|cc'']] \<and>
   map (run_width [''a|bb|c'', ''aaa|b|cc'']) [0, 1, 2] = [3, 2, 2] \<and>
   align_on_pipe (''a|bb|c'' @ [CHR 0x0A] @ ''aaa|b|cc'') =
     Inr (''a  bbc '' @ [CHR 0x0A] @ ''aaab cc'')"
proof -
  note p = segments_props[of "splitlines doc"]
  have e1: "segments (splitlines (''a|bb|c'' @ [CHR 0x0A] @ ''aaa|b|cc''))
              = [[''a|bb|c'', ''aaa|b|cc'']]"
    by code_simp
  have e2: "map (run_width [''a|bb|c'', ''aaa|b|cc'']) [0, 1, 2] = [3, 2, 2]"
    by (simp add: run_width_def)
  have e3: "align_on_pipe (''a|bb|c'' @ [CHR 0x0A] @ ''aaa|b|cc'') =
              Inr (''a  bbc '' @ [CHR 0x0A] @ ''aaab cc'')"
    by code_simp
  show ?thesis
    by (intro conjI conjunct1[OF p] conjunct1[OF conjunct2[OF p]]
          conjunct2[OF conjunct2[OF p]] align_on_pipe_eq e1 e2 e3)
qed

theorem align_on_pipe_runs_witness:
  "concat (segments (splitlines (''x|y'' @ [CHR 0x0A] @ ''z''))) = [''x|y'', ''z''] \<and>
   align_on_pipe (''x|y'' @ [CHR 0x0A] @ ''z'') = Inr (''xy'' @ [CHR 0x0A] @ ''z'')"
proof -
  have s: "splitlines (''x|y'' @ [CHR 0x0A] @ ''z'') = [''x|y'', ''z'']" by code_simp
  have g: "segments [''x|y'', ''z''] = [[''x|y''], [''z'']]" by code_simp
  have w1: "padded_line [''x|y''] ''x|y'' = ''xy''"
    by (simp add: padded_line_def pipe_count_def run_width_def ljust_def)
  have w2: "padded_line [''z''] ''z'' = ''z''"
    by (simp add: padded_line_def pipe_count_def run_width_def ljust_def)
  note t = align_on_pipe_runs[of "''x|y'' @ [CHR 0x0A] @ ''z''"]
  have a: "concat (segments (splitlines (''x|y'' @ [CHR 0x0A] @ ''z'')))
             = splitlines (''x|y'' @ [CHR 0x0A] @ ''z'')"
    by (rule conjunct1[OF t])
  have b: "align_on_pipe (''x|y'' @ [CHR 0x0A] @ ''z'') =
     Inr (join [CHR 0x0A]
            (concat (map (\<lambda>run. map (padded_line run) run)
                       (segments (splitlines (''x|y'' @ [CHR 0x0A] @ ''z''))))))"
    by (rule conjunct1[OF conjunct2[OF conjunct2[OF conjunct2[OF t]]]])
  show ?thesis using a b unfolding s g by (simp add: w1 w2)
qed

text \<open>
  Claim C9.  For every input, \<open>align_on_pipe\<close> returns the lines of the input joined by a
  line feed, where each line is replaced by its columns (the pieces between the pipes), in
  their order, each followed by padding spaces only.  The pipes themselves are gone: the
  text returned has no pipe character.
\<close>

theorem align_on_pipe_drops_pipes:
  "\<exists>ls. align_on_pipe doc = Inr (join [CHR 0x0A] ls) \<and>
        list_all2 spaced_columns (splitlines doc) ls \<and>
        CHR ''|'' \<notin> set (join [CHR 0x0A] ls)"
proof -
  let ?ls = "concat (map (\<lambda>run. map (padded_line run) run) (segments (splitlines doc)))"
  have "CHR ''|'' \<notin> set (join [CHR 0x0A] ?ls)"
  proof
    assume "CHR ''|'' \<in> set (join [CHR 0x0A] ?ls)"
    then have "CHR ''|'' \<in> set [CHR 0x0A] \<union> \<Union>(set ` set ?ls)"
      using join_set[of "[CHR 0x0A]" ?ls] by blast
    then obtain x where "x \<in> set ?ls" "CHR ''|'' \<in> set x" by auto
    then show False using padded_line_no_pipe by auto
  qed
  moreover have "list_all2 spaced_columns (concat (segments (splitlines doc))) ?ls"
    by (rule list_all2_concat_map) (rule padded_line_spaced)
  then have "list_all2 spaced_columns (splitlines doc) ?ls"
    using segments_props[of "splitlines doc"] by simp
  ultimately show ?thesis using align_on_pipe_eq[of doc] by blast
qed

theorem align_on_pipe_drops_pipes_witness:
  "\<exists>ls. align_on_pipe ''a|bb|c'' = Inr (join [CHR 0x0A] ls) \<and>
        list_all2 spaced_columns [''a|bb|c''] ls \<and>
        CHR ''|'' \<notin> set (join [CHR 0x0A] ls)"
proof -
  have s: "splitlines ''a|bb|c'' = [''a|bb|c'']" by code_simp
  show ?thesis using align_on_pipe_drops_pipes[of "''a|bb|c''"] unfolding s .
qed

section \<open>Facts about width bounds and port names\<close>

lemma char_eqI: "of_char c = (of_char d :: nat) \<Longrightarrow> c = d"
  by simp

lemma is_digit_iff: "is_digit c \<longleftrightarrow> c \<in> set ''0123456789''"
proof
  assume "c \<in> set ''0123456789''"
  then show "is_digit c" by (auto simp: is_digit_def)
next
  assume d: "is_digit c"
  define n where "n = (of_char c :: nat)"
  have "48 \<le> n" "n \<le> 57" using d by (simp_all add: is_digit_def n_def)
  then have "n = 48 \<or> n = 49 \<or> n = 50 \<or> n = 51 \<or> n = 52 \<or> n = 53 \<or> n = 54
      \<or> n = 55 \<or> n = 56 \<or> n = 57" by arith
  then consider "n = 48" | "n = 49" | "n = 50" | "n = 51" | "n = 52" | "n = 53" | "n = 54"
      | "n = 55" | "n = 56" | "n = 57" by blast
  then show "c \<in> set ''0123456789''"
  proof cases
    case 1 then have "c = CHR ''0''" unfolding n_def by (intro char_eqI) simp
    then show ?thesis by simp
  next
    case 2 then have "c = CHR ''1''" unfolding n_def by (intro char_eqI) simp
    then show ?thesis by simp
  next
    case 3 then have "c = CHR ''2''" unfolding n_def by (intro char_eqI) simp
    then show ?thesis by simp
  next
    case 4 then have "c = CHR ''3''" unfolding n_def by (intro char_eqI) simp
    then show ?thesis by simp
  next
    case 5 then have "c = CHR ''4''" unfolding n_def by (intro char_eqI) simp
    then show ?thesis by simp
  next
    case 6 then have "c = CHR ''5''" unfolding n_def by (intro char_eqI) simp
    then show ?thesis by simp
  next
    case 7 then have "c = CHR ''6''" unfolding n_def by (intro char_eqI) simp
    then show ?thesis by simp
  next
    case 8 then have "c = CHR ''7''" unfolding n_def by (intro char_eqI) simp
    then show ?thesis by simp
  next
    case 9 then have "c = CHR ''8''" unfolding n_def by (intro char_eqI) simp
    then show ?thesis by simp
  next
    case 10 then have "c = CHR ''9''" unfolding n_def by (intro char_eqI) simp
    then show ?thesis by simp
  qed
qed

lemma has_nonarith_iff: "has_nonarith s \<longleftrightarrow> (\<exists>c\<in>set s. c \<notin> set ''0123456789+-*/()'')"
proof -
  have "arith_char c \<longleftrightarrow> c \<in> set ''0123456789+-*/()''" for c
    unfolding arith_char_def is_digit_iff by auto
  then show ?thesis by (simp add: has_nonarith_def list_ex_iff)
qed














lemma set_range_fields:
  "name (set_range self vt hi lo) = name self"
  "high (set_range self vt hi lo) = str_of hi"
  "low (set_range self vt hi lo) = str_of lo"
  "length' (set_range self vt (PyInt h) (PyInt l)) = py_str (h - l + 1)"
  "\<not> (\<exists>h l. hi = PyInt h \<and> lo = PyInt l) \<Longrightarrow>
     length' (set_range self vt hi lo) = str_of hi @ ''-'' @ str_of lo"
  "vhdl_type (set_range self vt hi lo) = vt @ ''('' @ str_of hi @ '' downto '' @ str_of lo @ '')''"
  by (auto simp: set_range_def split: pyval.splits)

lemma update_from_name_range:
  assumes m: "re_name_hint (name self) = Some (p0, p1)"
    and nb: "p1 \<noteq> ''b''" and ni: "p1 \<noteq> ''integer''"
    and r: "update_from_name self gl ev = Value p"
  shows "\<exists>vt ts hs ls hi lo.
           hint_type p1 = (vt, ts) \<and> range_bounds ts = (hs, ls) \<and>
           (if ev then parse_portsize_part hs gl = Value hi \<and> parse_portsize_part ls gl = Value lo
            else hi = hs \<and> lo = ls) \<and>
           p = set_range (self\<lparr> name := p0, vhdl_type := vt \<rparr>) vt hi lo"
proof -
  obtain vt ts where ht: "hint_type p1 = (vt, ts)" by (cases "hint_type p1") auto
  obtain hs ls where rb: "range_bounds ts = (hs, ls)" by (cases "range_bounds ts") auto
  show ?thesis
  proof (cases ev)
    case False
    with r m nb ni ht rb show ?thesis
      by (simp add: update_from_name_def Let_def)
  next
    case True
    with r m nb ni ht rb
    have e: "(case parse_portsize_part hs gl of
                Value hi \<Rightarrow>
                  (case parse_portsize_part ls gl of
                     Value lo \<Rightarrow> Value (set_range (self\<lparr> name := p0, vhdl_type := vt \<rparr>) vt hi lo)
                   | Raised e \<Rightarrow> Raised e
                   | FloatResult \<Rightarrow> FloatResult)
              | Raised e \<Rightarrow> Raised e
              | FloatResult \<Rightarrow> FloatResult) = Value p"
      by (simp add: update_from_name_def Let_def)
    then obtain hi where h: "parse_portsize_part hs gl = Value hi"
      by (cases "parse_portsize_part hs gl") simp_all
    with e obtain lo where l: "parse_portsize_part ls gl = Value lo"
      by (cases "parse_portsize_part ls gl") simp_all
    from e h l have "p = set_range (self\<lparr> name := p0, vhdl_type := vt \<rparr>) vt hi lo" by simp
    with True ht rb h l show ?thesis by simp
  qed
qed















section \<open>Claims about \<open>parse_portsize_part\<close> and \<open>update_from_name\<close>\<close>

text \<open>
  Claim C6.  When the string left by the substitution of the integer generics still has a
  character that is neither a digit nor one of \<open>+ - * / ( )\<close>, \<open>parse_portsize_part\<close>
  returns that string and raises nothing; the same holds for the string reached when the
  value of a generic named in it is no integer.
\<close>

theorem parse_portsize_part_deferred:
  "(subst_loop size_part generic_list = Inr s \<and> (\<exists>c\<in>set s. c \<notin> set ''0123456789+-*/()'')
      \<longrightarrow> parse_portsize_part (PyStr size_part) generic_list = Value (PyStr s)) \<and>
   (subst_loop size_part generic_list = Inl s
      \<longrightarrow> parse_portsize_part (PyStr size_part) generic_list = Value (PyStr s))"
  by (simp add: has_nonarith_iff)

theorem parse_portsize_part_deferred_witness:
  "parse_portsize_part (PyStr ''W+N'')
     [Generic0\<lparr> g_name := ''W'', g_typestr := ''integer'', g_value' := ''8'' \<rparr>]
   = Value (PyStr ''8+N'')"
proof -
  have a: "subst_loop ''W+N''
             [Generic0\<lparr> g_name := ''W'', g_typestr := ''integer'', g_value' := ''8'' \<rparr>]
           = Inr ''8+N''"
    by code_simp
  have b: "\<exists>c\<in>set ''8+N''. c \<notin> set ''0123456789+-*/()''" by simp
  from parse_portsize_part_deferred[of "''W+N''"
         "[Generic0\<lparr> g_name := ''W'', g_typestr := ''integer'', g_value' := ''8'' \<rparr>]" "''8+N''"]
       a b
  show ?thesis by blast
qed

text \<open>
  Claim C10.  When the hint in brackets at the end of a name is exactly \<open>b\<close> or exactly
  \<open>integer\<close>, \<open>update_from_name\<close> leaves the name as it is, hint included, and sets the
  type to \<open>boolean\<close> with high 0, low 0 and length 1, or to \<open>integer\<close> with high 31,
  low 0 and length 32.  For every other hint the name of the port becomes the part before
  the bracket.
\<close>

theorem update_from_name_keeps_hinted_name:
  assumes "re_name_hint (name self) = Some (p0, p1)"
  shows "(p1 = ''b'' \<longrightarrow>
            update_from_name self gl ev =
              Value (self\<lparr> vhdl_type := ''boolean'', high := ''0'', low := ''0'', length' := ''1'' \<rparr>)) \<and>
         (p1 = ''integer'' \<longrightarrow>
            update_from_name self gl ev =
              Value (self\<lparr> vhdl_type := ''integer'', high := ''31'', low := ''0'', length' := ''32'' \<rparr>)) \<and>
         (p1 \<noteq> ''b'' \<and> p1 \<noteq> ''integer'' \<longrightarrow>
            (\<forall>p. update_from_name self gl ev = Value p \<longrightarrow> name p = p0))"
proof (intro conjI impI allI)
  assume "p1 = ''b''"
  with assms show "update_from_name self gl ev =
      Value (self\<lparr> vhdl_type := ''boolean'', high := ''0'', low := ''0'', length' := ''1'' \<rparr>)"
    by (simp add: update_from_name_def)
next
  assume "p1 = ''integer''"
  with assms show "update_from_name self gl ev =
      Value (self\<lparr> vhdl_type := ''integer'', high := ''31'', low := ''0'', length' := ''32'' \<rparr>)"
    by (simp add: update_from_name_def)
next
  fix p assume a: "p1 \<noteq> ''b'' \<and> p1 \<noteq> ''integer''" and r: "update_from_name self gl ev = Value p"
  from update_from_name_range[OF assms _ _ r] a
  show "name p = p0" by (auto simp: set_range_fields)
qed

theorem update_from_name_keeps_hinted_name_witness:
  "update_from_name (Port0\<lparr> name := ''en(b)'' \<rparr>) [] True =
     Value (Port0\<lparr> name := ''en(b)'', vhdl_type := ''boolean'', high := ''0'', low := ''0'',
                   length' := ''1'' \<rparr>) \<and>
   update_from_name (Port0\<lparr> name := ''n(integer)'' \<rparr>) [] True =
     Value (Port0\<lparr> name := ''n(integer)'', vhdl_type := ''integer'', high := ''31'',
                   low := ''0'', length' := ''32'' \<rparr>)"
proof -
  have a: "re_name_hint (name (Port0\<lparr> name := ''en(b)'' \<rparr>)) = Some (''en'', ''b'')"
    by code_simp
  have b: "re_name_hint (name (Port0\<lparr> name := ''n(integer)'' \<rparr>)) = Some (''n'', ''integer'')"
    by code_simp
  from update_from_name_keeps_hinted_name[OF a, of "[]" True]
       update_from_name_keeps_hinted_name[OF b, of "[]" True]
  show ?thesis by simp
qed






section \<open>Claims about the components and the nets\<close>

lemma set_range_keeps:
  "dirstr (set_range self vt hi lo) = dirstr self"
  "typestr (set_range self vt hi lo) = typestr self"
  by (simp_all add: set_range_def)

lemma update_from_name_no_eval:
  "\<exists>p. update_from_name self gl False = Value p \<and> dirstr p = dirstr self \<and>
       typestr p = typestr self"
  by (auto simp: update_from_name_def Let_def set_range_keeps split: option.splits prod.splits)

lemma update_from_name_no_hint:
  "re_name_hint (name self) = None \<Longrightarrow>
   update_from_name self gl ev =
     Value (self\<lparr> vhdl_type := ''std_logic'', high := ''0'', low := ''0'', length' := ''1'' \<rparr>)"
  by (simp add: update_from_name_def)

lemma lower_io:
  "lower ''IN'' = ''in''" "lower ''OUT'' = ''out''" "lower ''INOUT'' = ''inout''"
  by code_simp+

text \<open>
  Claim C5, as the code has it.  For a component whose part is \<open>IN\<close>, \<open>OUT\<close> or \<open>INOUT\<close>
  no instance is made and one port is appended to the port list.  Its direction is the
  part name in lower case, and its \<open>typestr\<close> is the \<open>TYPE\<close> property, or \<open>std_logic\<close>
  without one.  But its name and its resolved type are not the value of the component and
  the \<open>TYPE\<close> property: they are what \<open>update_from_name\<close> decodes from the value, without
  evaluation.  The value \<open>d(7:0)\<close> with the \<open>TYPE\<close> property \<open>integer\<close> gives the name \<open>d\<close>
  and the resolved type \<open>std_logic_vector(7 downto 0)\<close>.  A value without a hint in
  brackets is the name of the port, and the resolved type is then \<open>std_logic\<close>.
\<close>

theorem comp_step_io_port_counterexample:
  "(case add_io_port []
           \<lparr> comp_ref = ''J1'', comp_value = ''d(7:0)'', comp_part = ''IN'',
             comp_properties = [\<lparr> prop_name = ''TYPE'', prop_value = ''integer'' \<rparr>] \<rparr>
           \<lparr> port_list = [], full_item_list = [], direct_connects = Map.empty,
             instance_list = [] \<rparr> of
      Value st \<Rightarrow> map (\<lambda>p. (name p, dirstr p, typestr p, vhdl_type p)) (port_list st)
    | Raised e \<Rightarrow> []
    | FloatResult \<Rightarrow> [])
   = [(''d'', ''in'', ''integer'', ''std_logic_vector(7 downto 0)'')]"
proof -
  have u: "update_from_name
             (Port0\<lparr> name := ''d(7:0)'', dirstr := ''in'', typestr := ''integer'' \<rparr>) [] False =
           Value (Port0\<lparr> name := ''d'', dirstr := ''in'', typestr := ''integer'',
                         vhdl_type := ''std_logic_vector(7 downto 0)'', high := ''7'',
                         low := ''0'', length' := ''7-0'' \<rparr>)"
    by code_simp
  show ?thesis by (simp add: add_io_port_def lower_io u)
qed

theorem comp_step_io_port:
  assumes "comp_part c \<in> {''IN'', ''OUT'', ''INOUT''}"
  shows "\<exists>p. comp_step build gl c st =
               Value (st\<lparr> port_list := port_list st @ [p],
                          full_item_list := full_item_list st @ [Inr p],
                          direct_connects := (direct_connects st)(comp_ref c \<mapsto> name p) \<rparr>) \<and>
             update_from_name
               (Port0\<lparr> name := comp_value c, dirstr := lower (comp_part c),
                       typestr := find_property (comp_properties c) ''TYPE'' ''std_logic'' \<rparr>)
               gl False = Value p \<and>
             dirstr p = lower (comp_part c) \<and>
             dirstr p \<in> {''in'', ''out'', ''inout''} \<and>
             typestr p = find_property (comp_properties c) ''TYPE'' ''std_logic'' \<and>
             (re_name_hint (comp_value c) = None \<longrightarrow>
                name p = comp_value c \<and> vhdl_type p = ''std_logic'' \<and>
                high p = ''0'' \<and> low p = ''0'' \<and> length' p = ''1'')"
proof -
  define port where "port = Port0\<lparr> name := comp_value c, dirstr := lower (comp_part c),
                       typestr := find_property (comp_properties c) ''TYPE'' ''std_logic'' \<rparr>"
  obtain p where u: "update_from_name port gl False = Value p"
    and d: "dirstr p = dirstr port" and t: "typestr p = typestr port"
    using update_from_name_no_eval[of port gl] by blast
  have step: "comp_step build gl c st =
               Value (st\<lparr> port_list := port_list st @ [p],
                          full_item_list := full_item_list st @ [Inr p],
                          direct_connects := (direct_connects st)(comp_ref c \<mapsto> name p) \<rparr>)"
    using assms u by (auto simp: comp_step_def add_io_port_def Let_def port_def)
  have low: "lower (comp_part c) \<in> {''in'', ''out'', ''inout''}"
    using assms lower_io by auto
  have nh: "name p = comp_value c \<and> vhdl_type p = ''std_logic'' \<and>
            high p = ''0'' \<and> low p = ''0'' \<and> length' p = ''1''"
    if "re_name_hint (comp_value c) = None"
  proof -
    have "re_name_hint (name port) = None" using that by (simp add: port_def)
    from update_from_name_no_hint[OF this, of gl False] u show ?thesis by (auto simp: port_def)
  qed
  show ?thesis
    using step u d t low nh unfolding port_def[symmetric] by (intro exI[of _ p]) (simp add: port_def)
qed

theorem comp_step_io_port_witness:
  "\<exists>p. comp_step (\<lambda>c. Raised TypeError) []
          \<lparr> comp_ref = ''J2'', comp_value = ''clk'', comp_part = ''OUT'', comp_properties = [] \<rparr>
          \<lparr> port_list = [], full_item_list = [], direct_connects = Map.empty,
            instance_list = [] \<rparr> =
        Value \<lparr> port_list = [p], full_item_list = [Inr p],
                direct_connects = [''J2'' \<mapsto> name p], instance_list = [] \<rparr> \<and>
       name p = ''clk'' \<and> dirstr p = ''out'' \<and> typestr p = ''std_logic'' \<and>
       vhdl_type p = ''std_logic''"
proof -
  have h: "re_name_hint ''clk'' = None" by code_simp
  have m: "comp_part \<lparr> comp_ref = ''J2'', comp_value = ''clk'', comp_part = ''OUT'',
                         comp_properties = [] \<rparr> \<in> {''IN'', ''OUT'', ''INOUT''}"
    by simp
  from comp_step_io_port[OF m, of "\<lambda>c. Raised TypeError" "[]"
         "\<lparr> port_list = [], full_item_list = [], direct_connects = Map.empty,
            instance_list = [] \<rparr>"]
  show ?thesis using h by (auto simp: lower_io)
qed

text \<open>Facts about the loop over the nets.\<close>

lemma direct_name_None: "direct_name dc ns = None \<longleftrightarrow> (\<forall>node\<in>set ns. dc (ref node) = None)"
  by (induction ns) (auto split: option.splits)

lemma connect_nodes_conns:
  "map (\<lambda>k. (conn_ref k, conn_pin k)) (snd (connect_nodes nm ns insts conns)) =
     map (\<lambda>k. (conn_ref k, conn_pin k)) conns @ map (\<lambda>node. (ref node, pin node)) ns"
  by (induction ns arbitrary: insts conns) simp_all

lemma last_index_cong:
  assumes "length xs = length ys" and "\<And>i. i < length xs \<Longrightarrow> P (xs ! i) = Q (ys ! i)"
  shows "last_index P xs = last_index Q ys"
proof -
  have "filter (\<lambda>i. P (xs ! i)) (rev [0..<length xs]) = filter (\<lambda>i. Q (ys ! i)) (rev [0..<length xs])"
    by (rule filter_cong) (auto simp: assms(2))
  then show ?thesis by (simp add: last_index_def assms(1))
qed

lemma set_targets_length: "length (set_targets f n insts) = length insts"
  by (simp add: set_targets_def)

lemma set_targets_nth:
  "i < length insts \<Longrightarrow>
   instance_name (set_targets f n insts ! i) = instance_name (insts ! i) \<and>
   map num (ports (set_targets f n insts ! i)) = map num (ports (insts ! i)) \<and>
   map vhdl_type (ports (set_targets f n insts ! i)) = map vhdl_type (ports (insts ! i))"
  by (auto simp: set_targets_def)

lemma last_index_Some: "last_index P xs = Some i \<Longrightarrow> i < length xs"
proof -
  assume a: "last_index P xs = Some i"
  then obtain r where e: "filter (\<lambda>i. P (xs ! i)) (rev [0..<length xs]) = i # r"
    by (auto simp: last_index_def split: list.splits)
  have "i \<in> set (i # r)" by simp
  then have "i \<in> set (filter (\<lambda>i. P (xs ! i)) (rev [0..<length xs]))" by (simp only: e)
  then show ?thesis by simp
qed

lemma last_index_None: "(\<forall>x\<in>set xs. \<not> P x) \<Longrightarrow> last_index P xs = None"
proof -
  assume a: "\<forall>x\<in>set xs. \<not> P x"
  have "filter (\<lambda>i. P (xs ! i)) (rev [0..<length xs]) = []"
    using a by (auto simp: filter_empty_conv)
  then show ?thesis by (simp add: last_index_def)
qed

lemma list_ex_num: "list_ex (\<lambda>p. num p = x) ps \<longleftrightarrow> x \<in> set (map num ps)"
  by (auto simp: list_ex_iff)

lemma find_port_set_targets: "find_port node (set_targets f n insts) = find_port node insts"
proof -
  define insts' where "insts' = set_targets f n insts"
  have len: "length insts' = length insts" by (simp add: insts'_def set_targets_length)
  have nm: "instance_name (insts' ! i) = instance_name (insts ! i)"
    and nums: "map num (ports (insts' ! i)) = map num (ports (insts ! i))"
    if "i < length insts" for i
    using set_targets_nth[OF that, of f n] by (simp_all add: insts'_def)
  have li: "last_index (\<lambda>c. instance_name c = ref node \<and> list_ex (\<lambda>p. num p = pin node) (ports c)) insts'
          = last_index (\<lambda>c. instance_name c = ref node \<and> list_ex (\<lambda>p. num p = pin node) (ports c)) insts"
    by (rule last_index_cong) (simp_all add: len nm nums list_ex_num)
  have lp: "last_index (\<lambda>p. num p = pin node) (ports (insts' ! i))
          = last_index (\<lambda>p. num p = pin node) (ports (insts ! i))" if i: "i < length insts" for i
  proof (rule last_index_cong)
    show l: "length (ports (insts' ! i)) = length (ports (insts ! i))"
      using nums[OF i] by (metis length_map)
    fix j assume j: "j < length (ports (insts' ! i))"
    have "map num (ports (insts' ! i)) ! j = map num (ports (insts ! i)) ! j"
      using nums[OF i] by simp
    then have "num (ports (insts' ! i) ! j) = num (ports (insts ! i) ! j)"
      using j l by simp
    then show "(num (ports (insts' ! i) ! j) = pin node) = (num (ports (insts ! i) ! j) = pin node)"
      by simp
  qed
  show ?thesis
  proof (cases "last_index (\<lambda>c. instance_name c = ref node \<and>
                  list_ex (\<lambda>p. num p = pin node) (ports c)) insts")
    case None
    then show ?thesis unfolding find_port_def insts'_def[symmetric] li by simp
  next
    case (Some i)
    then have "i < length insts" by (rule last_index_Some)
    from lp[OF this] Some show ?thesis
      unfolding find_port_def insts'_def[symmetric] li by simp
  qed
qed

lemma find_port_None:
  "(\<forall>c\<in>set insts. instance_name c = ref node \<longrightarrow> (\<forall>p\<in>set (ports c). num p \<noteq> pin node)) \<Longrightarrow>
   find_port node insts = None"
proof -
  assume a: "\<forall>c\<in>set insts. instance_name c = ref node \<longrightarrow> (\<forall>p\<in>set (ports c). num p \<noteq> pin node)"
  have "last_index (\<lambda>c. instance_name c = ref node \<and> list_ex (\<lambda>p. num p = pin node) (ports c)) insts
        = None"
    by (rule last_index_None) (use a in \<open>auto simp: list_ex_iff\<close>)
  then show ?thesis by (simp add: find_port_def)
qed

lemma connect_nodes_eq:
  "snd (connect_nodes nm ns insts conns) =
     conns @ map (\<lambda>node. \<lparr> conn_ref = ref node, conn_pin = pin node,
                           conn_port = find_port node insts \<rparr>) ns"
proof (induction ns arbitrary: insts conns)
  case Nil then show ?case by simp
next
  case (Cons n ns)
  show ?case by (simp add: Cons.IH find_port_set_targets)
qed

lemma port_after_step:
  assumes inv: "\<And>p x. f (p\<lparr> target := x \<rparr>) = f p"
  shows "port_after f ns iname (if iname = ref n \<and> num p = pin n then p\<lparr> target := f p \<rparr> else p)
         = port_after f (n # ns) iname p"
proof (cases "iname = ref n \<and> num p = pin n")
  case True
  then show ?thesis by (simp add: port_after_def inv)
next
  case False
  then show ?thesis unfolding port_after_def by (simp only: if_False) auto
qed

lemma set_targets_alt:
  "set_targets f n insts =
     map (\<lambda>c. c\<lparr> ports := map (\<lambda>p. if instance_name c = ref n \<and> num p = pin n
                                      then p\<lparr> target := f p \<rparr> else p) (ports c) \<rparr>) insts"
  unfolding set_targets_def
proof (rule map_cong[OF refl])
  fix c assume "c \<in> set insts"
  show "(if instance_name c = ref n
         then c\<lparr> ports := map (\<lambda>p. if num p = pin n then p\<lparr> target := f p \<rparr> else p) (ports c) \<rparr>
         else c) =
        c\<lparr> ports := map (\<lambda>p. if instance_name c = ref n \<and> num p = pin n
                              then p\<lparr> target := f p \<rparr> else p) (ports c) \<rparr>"
    by (cases "instance_name c = ref n") simp_all
qed

lemma fold_set_targets:
  assumes inv: "\<And>p x. f (p\<lparr> target := x \<rparr>) = f p"
  shows "fold (set_targets f) ns insts =
         map (\<lambda>c. c\<lparr> ports := map (port_after f ns (instance_name c)) (ports c) \<rparr>) insts"
proof (induction ns arbitrary: insts)
  case Nil
  have "(\<lambda>c::Component. c\<lparr> ports := map (port_after f [] (instance_name c)) (ports c) \<rparr>) = (\<lambda>c. c)"
  proof (rule ext)
    fix c :: Component
    have "port_after f [] (instance_name c) = (\<lambda>p. p)"
      by (rule ext) (simp add: port_after_def)
    then show "c\<lparr> ports := map (port_after f [] (instance_name c)) (ports c) \<rparr> = c" by simp
  qed
  then show ?case by simp
next
  case (Cons n ns)
  have "fold (set_targets f) (n # ns) insts = fold (set_targets f) ns (set_targets f n insts)"
    by simp
  also have "\<dots> = map (\<lambda>c. c\<lparr> ports := map (port_after f ns (instance_name c)) (ports c) \<rparr>)
                     (set_targets f n insts)"
    by (rule Cons.IH)
  also have "\<dots> = map (\<lambda>c. c\<lparr> ports := map (port_after f (n # ns) (instance_name c)) (ports c) \<rparr>) insts"
    unfolding set_targets_alt map_map
  proof (rule map_cong[OF refl])
    fix c assume "c \<in> set insts"
    have "map (port_after f ns (instance_name c))
            (map (\<lambda>p. if instance_name c = ref n \<and> num p = pin n then p\<lparr> target := f p \<rparr> else p)
               (ports c))
          = map (port_after f (n # ns) (instance_name c)) (ports c)"
      unfolding map_map by (rule map_cong[OF refl]) (simp add: port_after_step[OF inv])
    then show "((\<lambda>c. c\<lparr> ports := map (port_after f ns (instance_name c)) (ports c) \<rparr>) \<circ>
                (\<lambda>c. c\<lparr> ports := map (\<lambda>p. if instance_name c = ref n \<and> num p = pin n
                                            then p\<lparr> target := f p \<rparr> else p) (ports c) \<rparr>)) c
               = c\<lparr> ports := map (port_after f (n # ns) (instance_name c)) (ports c) \<rparr>"
      by simp
  qed
  finally show ?case .
qed

lemma unconnected_target_inv: "unconnected_target (p\<lparr> target := x \<rparr>) = unconnected_target p"
  by (simp add: unconnected_target_def)

lemma net_step_unconnected_eq:
  assumes un: "startswith (net_name net) ''unconnected''"
  shows "net_step dc net st =
           st\<lparr> instances :=
                 map (\<lambda>c. c\<lparr> ports := map (port_after unconnected_target (nodes net) (instance_name c))
                                          (ports c) \<rparr>) (instances st) \<rparr>"
  using un fold_set_targets[of unconnected_target "nodes net" "instances st"]
  by (simp add: net_step_def unconnected_target_inv)

text \<open>
  Claim C3.  A net whose name does not begin with \<open>unconnected\<close>, and none of whose nodes
  has its reference in the table of direct connections, appends exactly one signal to the
  list of signals.  The connections of that signal are the nodes of the net in their
  order, one connection for each node, with the reference and the pin of the node; a node
  that names no port of any instance has a connection without a port.
\<close>

theorem net_step_appends_signal:
  assumes nu: "\<not> startswith (net_name net) ''unconnected''"
    and nd: "\<forall>node\<in>set (nodes net). dc (ref node) = None"
  shows "\<exists>sg. signal_list (net_step dc net st) = signal_list st @ [sg] \<and>
              length (connections sg) = length (nodes net) \<and>
              connections sg =
                map (\<lambda>node. \<lparr> conn_ref = ref node, conn_pin = pin node,
                              conn_port = find_port node (instances st) \<rparr>) (nodes net) \<and>
              sig_name sg = signal_name (net_name net) \<and> sig_code sg = code net \<and>
              (\<forall>node\<in>set (nodes net).
                 (\<forall>c\<in>set (instances st). instance_name c = ref node \<longrightarrow>
                    (\<forall>p\<in>set (ports c). num p \<noteq> pin node)) \<longrightarrow>
                 find_port node (instances st) = None)"
proof -
  have dn: "direct_name dc (nodes net) = None" using nd by (simp add: direct_name_None)
  obtain insts conns where cn:
    "connect_nodes (signal_name (net_name net)) (nodes net) (instances st) [] = (insts, conns)"
    by (cases "connect_nodes (signal_name (net_name net)) (nodes net) (instances st) []") auto
  have conns: "conns = map (\<lambda>node. \<lparr> conn_ref = ref node, conn_pin = pin node,
                              conn_port = find_port node (instances st) \<rparr>) (nodes net)"
    using connect_nodes_eq[of "signal_name (net_name net)" "nodes net" "instances st" "[]"]
    by (simp add: cn)
  obtain ty ws where sty:
    "signal_type (signal_name (net_name net)) insts conns [] (warnings st) = (ty, ws)"
    by (cases "signal_type (signal_name (net_name net)) insts conns [] (warnings st)") auto
  have "signal_list (net_step dc net st) =
          signal_list st @ [\<lparr> sig_name = signal_name (net_name net), sig_code = code net,
                              sig_vhdl_type = ty, connections = conns \<rparr>]"
    using nu dn cn sty by (simp add: net_step_def Let_def)
  moreover have "length conns = length (nodes net)" by (simp add: conns)
  ultimately show ?thesis using conns find_port_None by (intro exI) auto
qed

theorem net_step_appends_signal_witness:
  "\<exists>sg. signal_list (net_step Map.empty
           \<lparr> code = ''3'', net_name = ''/data-bus(7:0)'',
             nodes = [\<lparr> ref = ''U1'', pin = ''1'', pintype = ''input'', pinfunction = ''a'' \<rparr>,
                      \<lparr> ref = ''U9'', pin = ''2'', pintype = ''output'', pinfunction = ''b'' \<rparr>] \<rparr>
           \<lparr> instances = [\<lparr> c_name = ''AND2'', instance_name = ''U1'',
                            ports = [Port0\<lparr> name := ''a'', dirstr := ''in'', num := ''1'',
                                            vhdl_type := ''boolean'' \<rparr>],
                            properties = [], component = None \<rparr>],
             signal_list = [], warnings = [] \<rparr>) = [] @ [sg] \<and>
        length (connections sg) = 2 \<and> sig_name sg = ''data_bus'' \<and> sig_code sg = ''3''"
proof -
  have sn: "signal_name ''/data-bus(7:0)'' = ''data_bus''" by code_simp
  have "\<exists>sg. signal_list (net_step Map.empty
           \<lparr> code = ''3'', net_name = ''/data-bus(7:0)'',
             nodes = [\<lparr> ref = ''U1'', pin = ''1'', pintype = ''input'', pinfunction = ''a'' \<rparr>,
                      \<lparr> ref = ''U9'', pin = ''2'', pintype = ''output'', pinfunction = ''b'' \<rparr>] \<rparr>
           \<lparr> instances = [\<lparr> c_name = ''AND2'', instance_name = ''U1'',
                            ports = [Port0\<lparr> name := ''a'', dirstr := ''in'', num := ''1'',
                                            vhdl_type := ''boolean'' \<rparr>],
                            properties = [], component = None \<rparr>],
             signal_list = [], warnings = [] \<rparr>) =
          signal_list \<lparr> instances = [\<lparr> c_name = ''AND2'', instance_name = ''U1'',
                            ports = [Port0\<lparr> name := ''a'', dirstr := ''in'', num := ''1'',
                                            vhdl_type := ''boolean'' \<rparr>],
                            properties = [], component = None \<rparr>],
             signal_list = [], warnings = [] \<rparr> @ [sg] \<and>
        length (connections sg) = length (nodes \<lparr> code = ''3'', net_name = ''/data-bus(7:0)'',
             nodes = [\<lparr> ref = ''U1'', pin = ''1'', pintype = ''input'', pinfunction = ''a'' \<rparr>,
                      \<lparr> ref = ''U9'', pin = ''2'', pintype = ''output'', pinfunction = ''b'' \<rparr>] \<rparr>) \<and>
        sig_name sg = signal_name (net_name \<lparr> code = ''3'', net_name = ''/data-bus(7:0)'',
             nodes = [\<lparr> ref = ''U1'', pin = ''1'', pintype = ''input'', pinfunction = ''a'' \<rparr>,
                      \<lparr> ref = ''U9'', pin = ''2'', pintype = ''output'', pinfunction = ''b'' \<rparr>] \<rparr>) \<and>
        sig_code sg = code \<lparr> code = ''3'', net_name = ''/data-bus(7:0)'',
             nodes = [\<lparr> ref = ''U1'', pin = ''1'', pintype = ''input'', pinfunction = ''a'' \<rparr>,
                      \<lparr> ref = ''U9'', pin = ''2'', pintype = ''output'', pinfunction = ''b'' \<rparr>] \<rparr>"
    using net_step_appends_signal[of
           "\<lparr> code = ''3'', net_name = ''/data-bus(7:0)'',
             nodes = [\<lparr> ref = ''U1'', pin = ''1'', pintype = ''input'', pinfunction = ''a'' \<rparr>,
                      \<lparr> ref = ''U9'', pin = ''2'', pintype = ''output'', pinfunction = ''b'' \<rparr>] \<rparr>"
           Map.empty
           "\<lparr> instances = [\<lparr> c_name = ''AND2'', instance_name = ''U1'',
                            ports = [Port0\<lparr> name := ''a'', dirstr := ''in'', num := ''1'',
                                            vhdl_type := ''boolean'' \<rparr>],
                            properties = [], component = None \<rparr>],
             signal_list = [], warnings = [] \<rparr>"]
    by auto
  then show ?thesis by (simp add: sn numeral_2_eq_2)
qed

text \<open>
  Claim C4.  A net whose name begins with \<open>unconnected\<close> appends no signal.  Every port of
  an instance that one of its nodes names by reference and pin gets a new target: for
  the direction \<open>in\<close> it is \<open>false\<close> when the type is \<open>boolean\<close>, \<open>'0'\<close> when it is
  \<open>std_logic\<close> and \<open>(others => '0')\<close> otherwise; for any other direction, \<open>out\<close> and
  \<open>inout\<close> among them, it is \<open>open\<close>.  Every other port is left as it was.
\<close>

theorem net_step_unconnected:
  assumes un: "startswith (net_name net) ''unconnected''"
  shows "signal_list (net_step dc net st) = signal_list st \<and>
         length (instances (net_step dc net st)) = length (instances st) \<and>
         (\<forall>i<length (instances st).
            length (ports (instances (net_step dc net st) ! i)) = length (ports (instances st ! i)) \<and>
            (\<forall>j<length (ports (instances st ! i)).
               ports (instances (net_step dc net st) ! i) ! j =
                 (if \<exists>node\<in>set (nodes net).
                        instance_name (instances st ! i) = ref node \<and>
                        num (ports (instances st ! i) ! j) = pin node
                  then (ports (instances st ! i) ! j)
                         \<lparr> target :=
                             (if dirstr (ports (instances st ! i) ! j) = ''in'' then
                                (if vhdl_type (ports (instances st ! i) ! j) = ''boolean''
                                 then ''false''
                                 else if vhdl_type (ports (instances st ! i) ! j) = ''std_logic''
                                 then [CHR 0x27, CHR ''0'', CHR 0x27]
                                 else ''(others => '' @ [CHR 0x27, CHR ''0'', CHR 0x27] @ '')'')
                              else ''open'') \<rparr>
                  else ports (instances st ! i) ! j)))"
proof -
  note e = net_step_unconnected_eq[OF un, of dc st]
  have s: "signal_list (net_step dc net st) = signal_list st" unfolding e by simp
  have l: "length (instances (net_step dc net st)) = length (instances st)" unfolding e by simp
  have p: "length (ports (instances (net_step dc net st) ! i)) = length (ports (instances st ! i)) \<and>
            (\<forall>j<length (ports (instances st ! i)).
               ports (instances (net_step dc net st) ! i) ! j =
                 port_after unconnected_target (nodes net) (instance_name (instances st ! i))
                   (ports (instances st ! i) ! j))" if "i < length (instances st)" for i
    unfolding e using that by simp
  show ?thesis
  proof (intro conjI allI impI)
    show "signal_list (net_step dc net st) = signal_list st" by (rule s)
    show "length (instances (net_step dc net st)) = length (instances st)" by (rule l)
  next
    fix i assume "i < length (instances st)"
    then show "length (ports (instances (net_step dc net st) ! i)) = length (ports (instances st ! i))"
      using p by blast
  next
    fix i j assume i: "i < length (instances st)" and j: "j < length (ports (instances st ! i))"
    have "ports (instances (net_step dc net st) ! i) ! j =
            port_after unconnected_target (nodes net) (instance_name (instances st ! i))
              (ports (instances st ! i) ! j)"
      using p[OF i] j by blast
    then show "ports (instances (net_step dc net st) ! i) ! j =
                 (if \<exists>node\<in>set (nodes net).
                        instance_name (instances st ! i) = ref node \<and>
                        num (ports (instances st ! i) ! j) = pin node
                  then (ports (instances st ! i) ! j)
                         \<lparr> target :=
                             (if dirstr (ports (instances st ! i) ! j) = ''in'' then
                                (if vhdl_type (ports (instances st ! i) ! j) = ''boolean''
                                 then ''false''
                                 else if vhdl_type (ports (instances st ! i) ! j) = ''std_logic''
                                 then [CHR 0x27, CHR ''0'', CHR 0x27]
                                 else ''(others => '' @ [CHR 0x27, CHR ''0'', CHR 0x27] @ '')'')
                              else ''open'') \<rparr>
                  else ports (instances st ! i) ! j)"
      by (simp only: port_after_def unconnected_target_def)
  qed
qed

theorem net_step_unconnected_witness:
  "signal_list (net_step Map.empty
           \<lparr> code = ''4'', net_name = ''unconnected-(U1-Pad1)'',
             nodes = [\<lparr> ref = ''U1'', pin = ''1'', pintype = ''input'', pinfunction = ''a'' \<rparr>] \<rparr>
           \<lparr> instances = [\<lparr> c_name = ''AND2'', instance_name = ''U1'',
                            ports = [Port0\<lparr> name := ''a'', dirstr := ''in'', num := ''1'',
                                            vhdl_type := ''boolean'' \<rparr>],
                            properties = [], component = None \<rparr>],
             signal_list = [], warnings = [] \<rparr>) = [] \<and>
   target (ports (instances (net_step Map.empty
           \<lparr> code = ''4'', net_name = ''unconnected-(U1-Pad1)'',
             nodes = [\<lparr> ref = ''U1'', pin = ''1'', pintype = ''input'', pinfunction = ''a'' \<rparr>] \<rparr>
           \<lparr> instances = [\<lparr> c_name = ''AND2'', instance_name = ''U1'',
                            ports = [Port0\<lparr> name := ''a'', dirstr := ''in'', num := ''1'',
                                            vhdl_type := ''boolean'' \<rparr>],
                            properties = [], component = None \<rparr>],
             signal_list = [], warnings = [] \<rparr>) ! 0) ! 0) = ''false''"
proof -
  have u: "startswith (net_name \<lparr> code = ''4'', net_name = ''unconnected-(U1-Pad1)'',
             nodes = [\<lparr> ref = ''U1'', pin = ''1'', pintype = ''input'', pinfunction = ''a'' \<rparr>] \<rparr>) ''unconnected''"
    by simp
  note t = net_step_unconnected[OF u, of Map.empty
           "\<lparr> instances = [\<lparr> c_name = ''AND2'', instance_name = ''U1'',
                            ports = [Port0\<lparr> name := ''a'', dirstr := ''in'', num := ''1'',
                                            vhdl_type := ''boolean'' \<rparr>],
                            properties = [], component = None \<rparr>],
             signal_list = [], warnings = [] \<rparr>"]
  have a: "signal_list (net_step Map.empty
           \<lparr> code = ''4'', net_name = ''unconnected-(U1-Pad1)'',
             nodes = [\<lparr> ref = ''U1'', pin = ''1'', pintype = ''input'', pinfunction = ''a'' \<rparr>] \<rparr>
           \<lparr> instances = [\<lparr> c_name = ''AND2'', instance_name = ''U1'',
                            ports = [Port0\<lparr> name := ''a'', dirstr := ''in'', num := ''1'',
                                            vhdl_type := ''boolean'' \<rparr>],
                            properties = [], component = None \<rparr>],
             signal_list = [], warnings = [] \<rparr>) = []"
    using conjunct1[OF t] by simp
  have b: "target (ports (instances (net_step Map.empty
           \<lparr> code = ''4'', net_name = ''unconnected-(U1-Pad1)'',
             nodes = [\<lparr> ref = ''U1'', pin = ''1'', pintype = ''input'', pinfunction = ''a'' \<rparr>] \<rparr>
           \<lparr> instances = [\<lparr> c_name = ''AND2'', instance_name = ''U1'',
                            ports = [Port0\<lparr> name := ''a'', dirstr := ''in'', num := ''1'',
                                            vhdl_type := ''boolean'' \<rparr>],
                            properties = [], component = None \<rparr>],
             signal_list = [], warnings = [] \<rparr>) ! 0) ! 0) = ''false''"
    using conjunct2[OF conjunct2[OF t]] by simp
  show ?thesis using a b by blast
qed

end
